theory Spec2Isabelle
  imports Complex_Main
begin

section \<open>Transparency region detector (ImageProcessor.detectFramePlacement)\<close>

text \<open>
  The raw frame buffer as sharp returns it from \<^verbatim>\<open>raw().toBuffer({resolveWithObject: true})\<close>:
  \<^verbatim>\<open>info = {width, height, channels}\<close> and \<^verbatim>\<open>data\<close>, a byte buffer read with \<^verbatim>\<open>data[i]\<close>.
  Bytes are kept as naturals. JavaScript numbers are modelled by exact integers and reals:
  every number the detector computes is an integer, or a quotient of two pixel counts, far
  inside the range where double arithmetic agrees with the exact comparison made here.
\<close>

record raster =
  width :: nat
  height :: nat
  channels :: nat
  data :: "nat list"

text \<open>The object returned by \<^verbatim>\<open>detectFramePlacement\<close>: \<^verbatim>\<open>{top, left, width, height}\<close>.\<close>

record placement =
  top_p :: int
  left_p :: int
  width_p :: int
  height_p :: int

text \<open>The local variables of the scan.\<close>

record scan =
  minX :: int
  minY :: int
  maxX :: int
  maxY :: int
  hasTransparentArea :: bool
  transparentPixels :: nat

text \<open>
  \<^verbatim>\<open>const index = (y * width + x) * channels;\<close>
  \<^verbatim>\<open>const alpha = channels === 4 ? data[index + 3] : 255;\<close>
  A read past the end of the buffer gives \<^verbatim>\<open>undefined\<close>, here \<open>None\<close>.
\<close>

definition alphaAt :: "raster \<Rightarrow> nat \<Rightarrow> nat \<Rightarrow> nat option" where
  "alphaAt f x y =
     (let index = (y * width f + x) * channels f
      in if channels f = 4
         then (if index + 3 < length (data f) then Some (data f ! (index + 3)) else None)
         else Some 255)"

text \<open>\<^verbatim>\<open>if (alpha < 25)\<close>; the comparison \<^verbatim>\<open>undefined < 25\<close> is false.\<close>

definition isTransparent :: "raster \<Rightarrow> nat \<Rightarrow> nat \<Rightarrow> bool" where
  "isTransparent f x y = (case alphaAt f x y of None \<Rightarrow> False | Some a \<Rightarrow> a < 25)"

text \<open>The body of the inner loop, for the pixel \<open>(x, y)\<close>.\<close>

definition scanPixel :: "raster \<Rightarrow> nat \<Rightarrow> nat \<Rightarrow> scan \<Rightarrow> scan" where
  "scanPixel f y x s =
     (if isTransparent f x y
      then s\<lparr> hasTransparentArea := True,
              transparentPixels := transparentPixels s + 1,
              minX := min (minX s) (int x),
              minY := min (minY s) (int y),
              maxX := max (maxX s) (int x),
              maxY := max (maxY s) (int y) \<rparr>
      else s)"

text \<open>\<^verbatim>\<open>for (let x = 0; x < width; x++)\<close>\<close>

definition scanRow :: "raster \<Rightarrow> nat \<Rightarrow> scan \<Rightarrow> scan" where
  "scanRow f y s = fold (scanPixel f y) [0..<width f] s"

text \<open>
  \<^verbatim>\<open>let minX = width, minY = height, maxX = 0, maxY = 0;\<close>
  \<^verbatim>\<open>for (let y = 0; y < height; y++)\<close>
\<close>

definition scanInit :: "raster \<Rightarrow> scan" where
  "scanInit f = \<lparr> minX = int (width f), minY = int (height f), maxX = 0, maxY = 0,
                  hasTransparentArea = False, transparentPixels = 0 \<rparr>"

definition scanFrame :: "raster \<Rightarrow> scan" where
  "scanFrame f = fold (scanRow f) [0..<height f] (scanInit f)"

text \<open>
  \<^verbatim>\<open>const transparentPercentage = (transparentPixels / totalPixels) * 100;\<close>
  When the frame has no pixel the quotient is \<^verbatim>\<open>NaN\<close>; then \<^verbatim>\<open>hasTransparentArea\<close> is
  false and the disjunction below is decided by its first operand, here as in the source.
\<close>

definition transparentPercentage :: "raster \<Rightarrow> scan \<Rightarrow> real" where
  "transparentPercentage f s =
     (real (transparentPixels s) / real (width f * height f)) * 100"

definition detectFramePlacement :: "raster \<Rightarrow> placement" where
  "detectFramePlacement f =
     (let s = scanFrame f in
      if \<not> hasTransparentArea s \<or> transparentPercentage f s < 5
      then \<lparr> top_p = 0, left_p = 0, width_p = int (width f), height_p = int (height f) \<rparr>
      else
        let placementWidth = maxX s - minX s + 1;
            placementHeight = maxY s - minY s + 1;
            minWidth = max placementWidth \<lfloor>real (width f) * 0.2\<rfloor>;
            minHeight = max placementHeight \<lfloor>real (height f) * 0.2\<rfloor>;
            finalWidth = min minWidth (int (width f) - minX s);
            finalHeight = min minHeight (int (height f) - minY s)
        in \<lparr> top_p = minY s, left_p = minX s, width_p = finalWidth, height_p = finalHeight \<rparr>)"

subsection \<open>Notions used to state the detector's properties\<close>

text \<open>The placement pixels of a frame: the pixels inside the frame whose alpha is below 25.\<close>

definition transparentSet :: "raster \<Rightarrow> (nat \<times> nat) set" where
  "transparentSet f = {(x, y). x < width f \<and> y < height f \<and> isTransparent f x y}"

text \<open>The same pixels in the order the scan meets them, row by row.\<close>

definition rowPixels :: "raster \<Rightarrow> nat \<Rightarrow> (nat \<times> nat) list" where
  "rowPixels f y = map (\<lambda>x. (x, y)) (filter (\<lambda>x. isTransparent f x y) [0..<width f])"

definition framePixels :: "raster \<Rightarrow> (nat \<times> nat) list" where
  "framePixels f = concat (map (rowPixels f) [0..<height f])"

text \<open>What the scan does with one placement pixel.\<close>

definition mark :: "nat \<times> nat \<Rightarrow> scan \<Rightarrow> scan" where
  "mark p s = s\<lparr> hasTransparentArea := True,
                 transparentPixels := transparentPixels s + 1,
                 minX := min (minX s) (int (fst p)),
                 minY := min (minY s) (int (snd p)),
                 maxX := max (maxX s) (int (fst p)),
                 maxY := max (maxY s) (int (snd p)) \<rparr>"

text \<open>
  A test frame: an opaque white RGBA raster of \<open>w\<close> by \<open>h\<close> pixels with a fully transparent
  cut-out of \<open>rw\<close> by \<open>rh\<close> pixels whose top left corner is at \<open>(l, t)\<close>.
\<close>

definition cutoutFrame :: "nat \<Rightarrow> nat \<Rightarrow> nat \<Rightarrow> nat \<Rightarrow> nat \<Rightarrow> nat \<Rightarrow> raster" where
  "cutoutFrame w h l t rw rh =
     \<lparr> width = w, height = h, channels = 4,
       data = concat (map (\<lambda>i. [255, 255, 255,
                                 if l \<le> i mod w \<and> i mod w < l + rw \<and> t \<le> i div w \<and> i div w < t + rh
                                 then 0 else 255]) [0..<w * h]) \<rparr>"

section \<open>Retention manager (CleanupManager)\<close>

subsection \<open>The uploads directory\<close>

text \<open>
  One entry of the uploads directory with what \<^verbatim>\<open>fs.stat\<close> reports for it: \<^verbatim>\<open>stats.size\<close> in
  bytes and \<^verbatim>\<open>stats.mtime.getTime()\<close> in milliseconds. The directory is flat, so the entry's
  \<^verbatim>\<open>path\<close>, \<^verbatim>\<open>path.join(uploadsPath, name)\<close>, is determined by its name.
\<close>

record upload_file =
  name :: string
  size_b :: int
  mtime :: int

text \<open>
  The directory as the \<^verbatim>\<open>fs\<close> module shows it: whether \<^verbatim>\<open>fs.readdir\<close> succeeds, the entries in
  the order \<^verbatim>\<open>fs.readdir\<close> lists them, and the names that \<^verbatim>\<open>fs.unlink\<close> refuses to remove.
\<close>

record uploads =
  readable :: bool
  entries :: "upload_file list"
  undeletable :: "string list"

datatype fs_error = ENOENT | EACCES

text \<open>\<^verbatim>\<open>await fs.unlink(file.path)\<close>: rejects for a missing or a protected entry.\<close>

definition fs_unlink :: "uploads \<Rightarrow> string \<Rightarrow> fs_error + uploads" where
  "fs_unlink u n =
     (if n \<notin> name ` set (entries u) then Inl ENOENT
      else if n \<in> set (undeletable u) then Inl EACCES
      else Inr (u\<lparr> entries := filter (\<lambda>f. name f \<noteq> n) (entries u) \<rparr>))"

text \<open>
  \<^verbatim>\<open>await fs.readdir(this.uploadsPath)\<close>: the entries in directory order, or an error. The
  model hands over the entries with their metadata; \<^verbatim>\<open>fs.stat\<close> below decides whether the
  metadata can still be had.
\<close>

definition fs_readdir :: "uploads \<Rightarrow> fs_error + upload_file list" where
  "fs_readdir u = (if readable u then Inr (entries u) else Inl EACCES)"

text \<open>
  \<^verbatim>\<open>await fs.stat(filePath)\<close>: the size and modification time of an entry, which nothing in
  the program changes, as long as an entry of that name is in the directory; rejected once
  it has been removed.
\<close>

definition fs_stat :: "uploads \<Rightarrow> upload_file \<Rightarrow> fs_error + upload_file" where
  "fs_stat u f = (if name f \<in> name ` set (entries u) then Inr f else Inl ENOENT)"

text \<open>
  \<^verbatim>\<open>await Promise.all(filePromises)\<close>: the metadata of all files, or the error of a rejected
  \<^verbatim>\<open>fs.stat\<close>.
\<close>

fun statAll :: "uploads \<Rightarrow> upload_file list \<Rightarrow> fs_error + upload_file list" where
  "statAll u [] = Inr []"
| "statAll u (f # fs) =
     (case fs_stat u f of
        Inl e \<Rightarrow> Inl e
      | Inr f' \<Rightarrow> (case statAll u fs of Inl e \<Rightarrow> Inl e | Inr fs' \<Rightarrow> Inr (f' # fs')))"

subsection \<open>Configuration and file selection\<close>

text \<open>The fields the constructor sets and \<^verbatim>\<open>setConfig\<close> overrides.\<close>

record cleanup_config =
  maxAge :: int
  maxSize :: int
  supportedExtensions :: "string list"

definition defaultConfig :: cleanup_config where
  "defaultConfig = \<lparr> maxAge = 24 * 60 * 60 * 1000, maxSize = 100 * 1024 * 1024,
                     supportedExtensions = [''.jpg'', ''.jpeg'', ''.png''] \<rparr>"

text \<open>\<^verbatim>\<open>String.prototype.toLowerCase\<close> on the letters A to Z; other bytes are kept.\<close>

definition toLowerCase :: "string \<Rightarrow> string" where
  "toLowerCase s =
     map (\<lambda>c. case map_of (zip ''ABCDEFGHIJKLMNOPQRSTUVWXYZ'' ''abcdefghijklmnopqrstuvwxyz'') c of
                 None \<Rightarrow> c | Some l \<Rightarrow> l) s"

text \<open>
  Node's \<^verbatim>\<open>path.extname\<close> (POSIX): the text from the last dot of the last path segment to
  its end; empty when that segment has no dot, starts with its only dot, or is \<^verbatim>\<open>..\<close>.
\<close>

definition extname :: "string \<Rightarrow> string" where
  "extname p =
     (let trimmed = rev (dropWhile (\<lambda>c. c = CHR ''/'') (rev p));
          base = rev (takeWhile (\<lambda>c. c \<noteq> CHR ''/'') (rev trimmed));
          ext = rev (takeWhile (\<lambda>c. c \<noteq> CHR ''.'') (rev base))
      in if CHR ''.'' \<notin> set base then []
         else if length base = length ext + 1 then []
         else if base = ''..'' then []
         else CHR ''.'' # ext)"

definition isImageFile :: "cleanup_config \<Rightarrow> string \<Rightarrow> bool" where
  "isImageFile cfg filename =
     (let ext = toLowerCase (extname filename) in ext \<in> set (supportedExtensions cfg))"

text \<open>
  \<^verbatim>\<open>getUploadFiles\<close>: the directory is read, the names are filtered, the files are stat'ed;
  the \<^verbatim>\<open>catch\<close> returns \<^verbatim>\<open>[]\<close> when reading the directory or one of the stats fails. Its two
  awaits are taken apart: what is left to do after the directory is read, and the whole.
\<close>

definition imageEntries :: "cleanup_config \<Rightarrow> upload_file list \<Rightarrow> upload_file list" where
  "imageEntries cfg files = filter (\<lambda>f. isImageFile cfg (name f)) files"

definition statListed :: "uploads \<Rightarrow> upload_file list \<Rightarrow> upload_file list" where
  "statListed u listed = (case statAll u listed of Inl e \<Rightarrow> [] | Inr files \<Rightarrow> files)"

definition getUploadFiles :: "cleanup_config \<Rightarrow> uploads \<Rightarrow> upload_file list" where
  "getUploadFiles cfg u =
     (case fs_readdir u of
        Inl e \<Rightarrow> []
      | Inr files \<Rightarrow> statListed u (imageEntries cfg files))"

text \<open>
  Called on a directory that nothing else changes meanwhile, \<^verbatim>\<open>getUploadFiles\<close> finds every
  file it stats: it returns the image entries in directory order.
\<close>

lemma statAll_present:
  "\<forall>f \<in> set fs. name f \<in> name ` set (entries u) \<Longrightarrow> statAll u fs = Inr fs"
  by (induction fs) (simp_all add: fs_stat_def)


lemma getUploadFiles_listing:
  "getUploadFiles cfg u =
     (if readable u then filter (\<lambda>f. isImageFile cfg (name f)) (entries u) else [])"
  by (simp add: getUploadFiles_def fs_readdir_def statListed_def imageEntries_def statAll_present)

subsection \<open>The two passes\<close>

record cleanup_result =
  deletedCount :: nat
  totalSize :: int

text \<open>
  What one turn of a pass's \<^verbatim>\<open>for\<close> loop does: leave the loop (\<^verbatim>\<open>break\<close>), throw the error
  of the rejected \<^verbatim>\<open>fs.unlink\<close>, or go on with the directory, \<^verbatim>\<open>deletedCount\<close> and
  \<^verbatim>\<open>totalSize\<close> as they are now.
\<close>

datatype turn = Break | Throw fs_error | Continue uploads nat int

text \<open>
  The loop body of \<^verbatim>\<open>cleanOldFiles\<close>:
  \<^verbatim>\<open>const fileAge = now - file.mtime.getTime();\<close>
  \<^verbatim>\<open>if (fileAge > this.maxAge) { await fs.unlink(file.path); deletedCount++; }\<close>
  \<^verbatim>\<open>else { totalSize += file.size; }\<close>
\<close>

definition ageTurn :: "cleanup_config \<Rightarrow> int \<Rightarrow> upload_file \<Rightarrow> uploads \<Rightarrow> nat \<Rightarrow> int \<Rightarrow> turn" where
  "ageTurn cfg now f u d t =
     (let fileAge = now - mtime f
      in if fileAge > maxAge cfg
         then (case fs_unlink u (name f) of
                 Inl e \<Rightarrow> Throw e
               | Inr u' \<Rightarrow> Continue u' (d + 1) t)
         else Continue u d (t + size_b f))"

text \<open>
  The loop body of \<^verbatim>\<open>cleanBySize\<close>:
  \<^verbatim>\<open>if (totalSize <= this.maxSize) break;\<close>
  \<^verbatim>\<open>await fs.unlink(file.path); totalSize -= file.size; deletedCount++;\<close>
\<close>

definition sizeTurn :: "cleanup_config \<Rightarrow> upload_file \<Rightarrow> uploads \<Rightarrow> nat \<Rightarrow> int \<Rightarrow> turn" where
  "sizeTurn cfg f u d t =
     (if t \<le> maxSize cfg then Break
      else (case fs_unlink u (name f) of
              Inl e \<Rightarrow> Throw e
            | Inr u' \<Rightarrow> Continue u' (d + 1) (t - size_b f)))"

text \<open>
  A pass returns the directory as it leaves it, and either the error it rethrows from its
  \<^verbatim>\<open>catch\<close> block or its result \<^verbatim>\<open>{ deletedCount, totalSize }\<close>.
\<close>

fun ageLoop :: "cleanup_config \<Rightarrow> int \<Rightarrow> upload_file list \<Rightarrow> uploads \<Rightarrow> nat \<Rightarrow> int
                \<Rightarrow> uploads \<times> (fs_error + cleanup_result)" where
  "ageLoop cfg now [] u d t = (u, Inr \<lparr> deletedCount = d, totalSize = t \<rparr>)"
| "ageLoop cfg now (f # fs) u d t =
     (case ageTurn cfg now f u d t of
        Break \<Rightarrow> (u, Inr \<lparr> deletedCount = d, totalSize = t \<rparr>)
      | Throw e \<Rightarrow> (u, Inl e)
      | Continue u' d' t' \<Rightarrow> ageLoop cfg now fs u' d' t')"

definition cleanOldFiles :: "cleanup_config \<Rightarrow> int \<Rightarrow> uploads \<Rightarrow> uploads \<times> (fs_error + cleanup_result)" where
  "cleanOldFiles cfg now u = ageLoop cfg now (getUploadFiles cfg u) u 0 0"

fun sizeLoop :: "cleanup_config \<Rightarrow> upload_file list \<Rightarrow> uploads \<Rightarrow> nat \<Rightarrow> int
                 \<Rightarrow> uploads \<times> (fs_error + cleanup_result)" where
  "sizeLoop cfg [] u d t = (u, Inr \<lparr> deletedCount = d, totalSize = t \<rparr>)"
| "sizeLoop cfg (f # fs) u d t =
     (case sizeTurn cfg f u d t of
        Break \<Rightarrow> (u, Inr \<lparr> deletedCount = d, totalSize = t \<rparr>)
      | Throw e \<Rightarrow> (u, Inl e)
      | Continue u' d' t' \<Rightarrow> sizeLoop cfg fs u' d' t')"

text \<open>
  \<^verbatim>\<open>files.sort((a, b) => a.mtime.getTime() - b.mtime.getTime())\<close> is a stable sort by
  \<^verbatim>\<open>mtime\<close>, as \<^const>\<open>sort_key\<close> is.
\<close>

definition cleanBySize :: "cleanup_config \<Rightarrow> uploads \<Rightarrow> uploads \<times> (fs_error + cleanup_result)" where
  "cleanBySize cfg u =
     (let files = getUploadFiles cfg u;
          totalSize = sum_list (map size_b files)
      in if totalSize \<le> maxSize cfg
         then (u, Inr \<lparr> deletedCount = 0, totalSize = totalSize \<rparr>)
         else sizeLoop cfg (sort_key mtime files) u 0 totalSize)"

subsection \<open>Notions used to state the passes' properties\<close>

text \<open>The directory without the entries whose names are in \<open>N\<close>.\<close>

definition without :: "string set \<Rightarrow> uploads \<Rightarrow> uploads" where
  "without N u = u\<lparr> entries := filter (\<lambda>g. name g \<notin> N) (entries u) \<rparr>"

text \<open>The directory with its image files only.\<close>

definition imagesOnly :: "cleanup_config \<Rightarrow> uploads \<Rightarrow> uploads" where
  "imagesOnly cfg u = u\<lparr> entries := filter (\<lambda>g. isImageFile cfg (name g)) (entries u) \<rparr>"

text \<open>A file the age pass deletes: older than the age budget.\<close>

definition overAge :: "cleanup_config \<Rightarrow> int \<Rightarrow> upload_file \<Rightarrow> bool" where
  "overAge cfg now f = (now - mtime f > maxAge cfg)"

text \<open>
  The files the size pass deletes when no deletion fails: the files of its sorted list, from
  the front, as long as the total is above the budget.
\<close>

fun overBudget :: "int \<Rightarrow> upload_file list \<Rightarrow> int \<Rightarrow> upload_file list" where
  "overBudget m [] t = []"
| "overBudget m (f # fs) t = (if t \<le> m then [] else f # overBudget m fs (t - size_b f))"

text \<open>A file whose deletion is not refused.\<close>

definition deletable :: "uploads \<Rightarrow> upload_file \<Rightarrow> bool" where
  "deletable u f = (name f \<notin> set (undeletable u))"

text \<open>
  The files a pass sets out to delete, in its order: the over-age files of the listing for
  the age pass; for the size pass, when the total is above the budget, the files of the
  sorted listing from the front as long as the total stays above the budget.
\<close>

definition ageCandidates :: "cleanup_config \<Rightarrow> int \<Rightarrow> uploads \<Rightarrow> upload_file list" where
  "ageCandidates cfg now u = filter (overAge cfg now) (getUploadFiles cfg u)"

definition sizeCandidates :: "cleanup_config \<Rightarrow> uploads \<Rightarrow> upload_file list" where
  "sizeCandidates cfg u =
     overBudget (maxSize cfg) (sort_key mtime (getUploadFiles cfg u))
       (sum_list (map size_b (getUploadFiles cfg u)))"

text \<open>Test data: the configuration of the specification's scenario and its five artifacts.\<close>

definition budget35 :: cleanup_config where
  "budget35 = defaultConfig\<lparr> maxSize := 35 * 1024 * 1024 \<rparr>"

definition fiveArtifacts :: uploads where
  "fiveArtifacts =
     \<lparr> readable = True,
       entries = [\<lparr> name = ''a.jpg'', size_b = 10485760, mtime = 1000 \<rparr>,
                  \<lparr> name = ''b.jpg'', size_b = 10485760, mtime = 1000 \<rparr>,
                  \<lparr> name = ''c.jpg'', size_b = 10485760, mtime = 1000 \<rparr>,
                  \<lparr> name = ''d.jpg'', size_b = 10485760, mtime = 1000 \<rparr>,
                  \<lparr> name = ''e.jpg'', size_b = 10485760, mtime = 1000 \<rparr>],
       undeletable = [] \<rparr>"

text \<open>Test data: three files older than a day, the second of which cannot be deleted.\<close>

definition threeOld :: uploads where
  "threeOld =
     \<lparr> readable = True,
       entries = [\<lparr> name = ''p1.jpg'', size_b = 70000000, mtime = 1 \<rparr>,
                  \<lparr> name = ''p2.jpg'', size_b = 70000000, mtime = 2 \<rparr>,
                  \<lparr> name = ''p3.jpg'', size_b = 70000000, mtime = 3 \<rparr>],
       undeletable = [''p2.jpg''] \<rparr>"

text \<open>Test data: a print document of 200MB and a photo, both older than a day.\<close>

definition pdfAndPhoto :: uploads where
  "pdfAndPhoto =
     \<lparr> readable = True,
       entries = [\<lparr> name = ''print.pdf'', size_b = 209715200, mtime = 0 \<rparr>,
                  \<lparr> name = ''old.JPG'', size_b = 10, mtime = 0 \<rparr>],
       undeletable = [] \<rparr>"

text \<open>Test data: a photo of 10MB older than a day and a recent one of 5MB.\<close>

definition oldAndNew :: uploads where
  "oldAndNew =
     \<lparr> readable = True,
       entries = [\<lparr> name = ''old.jpg'', size_b = 10485760, mtime = 0 \<rparr>,
                  \<lparr> name = ''new.jpg'', size_b = 5242880, mtime = 86400000 \<rparr>],
       undeletable = [] \<rparr>"


subsection \<open>The statistics query\<close>

text \<open>
  The text a template literal puts for an integer-valued number: decimal digits, with a
  minus sign for a negative one.
\<close>

function digitsOf :: "nat \<Rightarrow> string" where
  "digitsOf n = (if n < 10 then [''0123456789'' ! n]
                 else digitsOf (n div 10) @ [''0123456789'' ! (n mod 10)])"
  by pat_completeness auto
termination
  by (relation "measure id") auto

declare digitsOf.simps [simp del]

definition numberToString :: "int \<Rightarrow> string" where
  "numberToString i = (if i < 0 then CHR ''-'' # digitsOf (nat (- i)) else digitsOf (nat i))"

text \<open>The operator \<^verbatim>\<open>%\<close>: the remainder has the sign of the dividend.\<close>

definition remainder :: "real \<Rightarrow> real \<Rightarrow> real" where
  "remainder a b = a - b * of_int (if a / b < 0 then \<lceil>a / b\<rceil> else \<lfloor>a / b\<rfloor>)"

definition formatDuration :: "real \<Rightarrow> string" where
  "formatDuration seconds =
     (let hours = \<lfloor>seconds / 3600\<rfloor>;
          minutes = \<lfloor>remainder seconds 3600 / 60\<rfloor>;
          secs = \<lfloor>remainder seconds 60\<rfloor>
      in if hours > 0
         then numberToString hours @ ''h '' @ numberToString minutes @ ''m '' @ numberToString secs @ ''s''
         else if minutes > 0
         then numberToString minutes @ ''m '' @ numberToString secs @ ''s''
         else numberToString secs @ ''s'')"

text \<open>
  The object \<^verbatim>\<open>getUploadStats\<close> returns, without \<^verbatim>\<open>totalSizeFormatted\<close>, a rendering of
  \<^verbatim>\<open>totalSize\<close> for display. Nothing in its \<^verbatim>\<open>try\<close> block throws, since \<^verbatim>\<open>getUploadFiles\<close>
  catches its own errors.
\<close>

record upload_stats =
  fileCount :: nat
  totalSize_s :: int
  oldestFile :: "string option"
  oldestFileAge :: "string option"

definition getUploadStats :: "cleanup_config \<Rightarrow> int \<Rightarrow> uploads \<Rightarrow> upload_stats" where
  "getUploadStats cfg now u =
     (let files = getUploadFiles cfg u;
          totalSize = fold (\<lambda>file sum. sum + size_b file) files 0;
          oldest = (case files of
                      [] \<Rightarrow> None
                    | f # fs \<Rightarrow> Some (fold (\<lambda>file oldest. if mtime file < mtime oldest then file else oldest) fs f))
      in \<lparr> fileCount = length files,
           totalSize_s = totalSize,
           oldestFile = map_option name oldest,
           oldestFileAge = map_option (\<lambda>file. formatDuration (real_of_int (now - mtime file) / 1000)) oldest \<rparr>)"

subsection \<open>The full cleanup: both passes started together\<close>

text \<open>
  \<^verbatim>\<open>runFullCleanup\<close> calls \<^verbatim>\<open>cleanOldFiles()\<close> and \<^verbatim>\<open>cleanBySize()\<close> one after the other inside
  \<^verbatim>\<open>Promise.all([...])\<close>. Each call runs until its first \<^verbatim>\<open>await\<close>, the reading of the
  directory in \<^verbatim>\<open>getUploadFiles\<close>, and hands control back; from then on the two passes advance
  in turns, one \<^verbatim>\<open>await\<close> at a time, in an order the runtime chooses.

  A pass between two turns: waiting for \<^verbatim>\<open>fs.readdir\<close>; waiting for the stats of the image
  entries it has read; inside its loop with the files still to visit and its two counters;
  or settled with a result or an error. The stats of one listing are awaited together: the
  listing is rejected, and caught as \<^verbatim>\<open>[]\<close>, when one of its files is gone, whichever stat
  finds that, so they take one turn.
\<close>

datatype pass =
    Listing
  | Statting "upload_file list"
  | Looping "upload_file list" nat int
  | Returned cleanup_result
  | Thrown fs_error

definition settled :: "pass \<Rightarrow> bool" where
  "settled p = (case p of Returned r \<Rightarrow> True | Thrown e \<Rightarrow> True | _ \<Rightarrow> False)"

text \<open>
  One turn of \<^verbatim>\<open>cleanOldFiles\<close>: the directory has been read, the stats have arrived, or the
  loop visits its next file.
\<close>

definition resumeAge :: "cleanup_config \<Rightarrow> int \<Rightarrow> uploads \<Rightarrow> pass \<Rightarrow> uploads \<times> pass" where
  "resumeAge cfg now u p =
     (case p of
        Listing \<Rightarrow>
          (case fs_readdir u of
             Inl e \<Rightarrow> (u, Looping [] 0 0)
           | Inr files \<Rightarrow> (u, Statting (imageEntries cfg files)))
      | Statting listed \<Rightarrow> (u, Looping (statListed u listed) 0 0)
      | Looping [] d t \<Rightarrow> (u, Returned \<lparr> deletedCount = d, totalSize = t \<rparr>)
      | Looping (f # fs) d t \<Rightarrow>
          (case ageTurn cfg now f u d t of
             Break \<Rightarrow> (u, Returned \<lparr> deletedCount = d, totalSize = t \<rparr>)
           | Throw e \<Rightarrow> (u, Thrown e)
           | Continue u' d' t' \<Rightarrow> (u', Looping fs d' t'))
      | Returned r \<Rightarrow> (u, Returned r)
      | Thrown e \<Rightarrow> (u, Thrown e))"

text \<open>
  What \<^verbatim>\<open>cleanBySize\<close> does with its listing before its loop: the total, the test against
  the budget, the sort.
\<close>

definition sizeListed :: "cleanup_config \<Rightarrow> upload_file list \<Rightarrow> pass" where
  "sizeListed cfg files =
     (let totalSize = sum_list (map size_b files)
      in if totalSize \<le> maxSize cfg
         then Returned \<lparr> deletedCount = 0, totalSize = totalSize \<rparr>
         else Looping (sort_key mtime files) 0 totalSize)"

text \<open>One turn of \<^verbatim>\<open>cleanBySize\<close>.\<close>

definition resumeSize :: "cleanup_config \<Rightarrow> uploads \<Rightarrow> pass \<Rightarrow> uploads \<times> pass" where
  "resumeSize cfg u p =
     (case p of
        Listing \<Rightarrow>
          (case fs_readdir u of
             Inl e \<Rightarrow> (u, sizeListed cfg [])
           | Inr files \<Rightarrow> (u, Statting (imageEntries cfg files)))
      | Statting listed \<Rightarrow> (u, sizeListed cfg (statListed u listed))
      | Looping [] d t \<Rightarrow> (u, Returned \<lparr> deletedCount = d, totalSize = t \<rparr>)
      | Looping (f # fs) d t \<Rightarrow>
          (case sizeTurn cfg f u d t of
             Break \<Rightarrow> (u, Returned \<lparr> deletedCount = d, totalSize = t \<rparr>)
           | Throw e \<Rightarrow> (u, Thrown e)
           | Continue u' d' t' \<Rightarrow> (u', Looping fs d' t'))
      | Returned r \<Rightarrow> (u, Returned r)
      | Thrown e \<Rightarrow> (u, Thrown e))"


text \<open>The error a pass has just thrown, if no error was thrown before.\<close>

definition firstRejection :: "fs_error option \<Rightarrow> pass \<Rightarrow> fs_error option" where
  "firstRejection rej p =
     (case rej of
        Some e \<Rightarrow> Some e
      | None \<Rightarrow> (case p of Thrown e \<Rightarrow> Some e | _ \<Rightarrow> None))"













subsection \<open>The triggers of a cleanup (PhotoBoothServer)\<close>

text \<open>
  The server starts a full cleanup from two places: the callback of the hourly timer that
  \<^verbatim>\<open>startCleanupScheduler\<close> sets, and \<^verbatim>\<open>runCleanup\<close>, which the route \<^verbatim>\<open>GET /api/cleanup\<close> calls.
  Both call \<^verbatim>\<open>this.cleanupManager.runFullCleanup()\<close> and nothing else. The server is one
  event loop: an event is a trigger, or the turn of one of the passes that are under way.
\<close>

datatype pass_kind = AgePass | SizePass

record server =
  uploadsDir :: uploads
  underWay :: "(pass_kind \<times> pass) list"

datatype event = TimerFires | CleanupRequested | Resumes nat

text \<open>
  What a call of \<^verbatim>\<open>runFullCleanup\<close> does before it first hands control back: both passes are
  started and wait for their listing.
\<close>

definition beginFullCleanup :: "server \<Rightarrow> server" where
  "beginFullCleanup sv = sv\<lparr> underWay := underWay sv @ [(AgePass, Listing), (SizePass, Listing)] \<rparr>"

text \<open>The turn of the pass at position \<open>i\<close>.\<close>

definition resumePass :: "cleanup_config \<Rightarrow> int \<Rightarrow> nat \<Rightarrow> server \<Rightarrow> server" where
  "resumePass cfg now i sv =
     (if i < length (underWay sv)
      then (case underWay sv ! i of
              (AgePass, p) \<Rightarrow>
                (case resumeAge cfg now (uploadsDir sv) p of
                   (u', p') \<Rightarrow> sv\<lparr> uploadsDir := u', underWay := (underWay sv)[i := (AgePass, p')] \<rparr>)
            | (SizePass, p) \<Rightarrow>
                (case resumeSize cfg (uploadsDir sv) p of
                   (u', p') \<Rightarrow> sv\<lparr> uploadsDir := u', underWay := (underWay sv)[i := (SizePass, p')] \<rparr>))
      else sv)"

definition serverStep :: "cleanup_config \<Rightarrow> int \<Rightarrow> event \<Rightarrow> server \<Rightarrow> server" where
  "serverStep cfg now ev sv =
     (case ev of
        TimerFires \<Rightarrow> beginFullCleanup sv
      | CleanupRequested \<Rightarrow> beginFullCleanup sv
      | Resumes i \<Rightarrow> resumePass cfg now i sv)"

definition serverRun :: "cleanup_config \<Rightarrow> int \<Rightarrow> event list \<Rightarrow> server \<Rightarrow> server" where
  "serverRun cfg now evs sv = fold (serverStep cfg now) evs sv"

text \<open>The passes that are executing: started and not settled.\<close>

definition executing :: "server \<Rightarrow> (pass_kind \<times> pass) list" where
  "executing sv = filter (\<lambda>kp. \<not> settled (snd kp)) (underWay sv)"

section \<open>The compositing pipeline (ImageProcessor.processImage, applyFrame, saveImage)\<close>

subsection \<open>The configured quality (Config, PhotoBoothServer.initialize)\<close>

text \<open>
  The environment as \<^verbatim>\<open>loadConfiguration\<close> reads it. \<^verbatim>\<open>process.env.PORT\<close> is a string: unset or
  empty it is falsy, otherwise the comparisons of \<^verbatim>\<open>validate\<close> convert it to a number, which
  may be \<^verbatim>\<open>NaN\<close>. The other three variables go through \<^verbatim>\<open>parseInt\<close>, which gives an integer or
  \<^verbatim>\<open>NaN\<close>, here \<open>None\<close> (also for a variable that is not set).
\<close>

datatype port_value = PortNumber real | PortNaN

record environment =
  env_PORT :: "port_value option"
  env_IMAGE_QUALITY :: "int option"
  env_MAX_FILE_SIZE :: "int option"
  env_MAX_UPLOADS_SIZE :: "int option"

record config =
  port :: port_value
  imageQuality :: int
  maxFileSize :: int
  maxUploadsSize :: int

text \<open>\<^verbatim>\<open>parseInt(v) || d\<close>: the default for \<^verbatim>\<open>NaN\<close> and for 0.\<close>

definition parseIntOr :: "int option \<Rightarrow> int \<Rightarrow> int" where
  "parseIntOr v d = (case v of None \<Rightarrow> d | Some n \<Rightarrow> if n = 0 then d else n)"

text \<open>
  \<^verbatim>\<open>this.port = process.env.PORT || 5000;\<close>
  \<^verbatim>\<open>this.imageQuality = parseInt(process.env.IMAGE_QUALITY) || 95;\<close>
  \<^verbatim>\<open>this.maxFileSize = parseInt(process.env.MAX_FILE_SIZE) || 10 * 1024 * 1024;\<close>
  \<^verbatim>\<open>this.maxUploadsSize = parseInt(process.env.MAX_UPLOADS_SIZE) || 100 * 1024 * 1024;\<close>
\<close>

definition loadConfiguration :: "environment \<Rightarrow> config" where
  "loadConfiguration env =
     \<lparr> port = (case env_PORT env of None \<Rightarrow> PortNumber 5000 | Some p \<Rightarrow> p),
       imageQuality = parseIntOr (env_IMAGE_QUALITY env) 95,
       maxFileSize = parseIntOr (env_MAX_FILE_SIZE env) (10 * 1024 * 1024),
       maxUploadsSize = parseIntOr (env_MAX_UPLOADS_SIZE env) (100 * 1024 * 1024) \<rparr>"

text \<open>
  \<^verbatim>\<open>validate()\<close> collects its error messages, throws an \<^verbatim>\<open>Error\<close> made of them when there is
  one, here \<open>Inl\<close>, and returns \<^verbatim>\<open>true\<close> otherwise. A comparison with \<^verbatim>\<open>NaN\<close> is false.
\<close>

definition validate :: "config \<Rightarrow> string list + bool" where
  "validate cfg =
     (let errors =
            (if (case port cfg of PortNumber p \<Rightarrow> p < 1 \<or> p > 65535 | PortNaN \<Rightarrow> False)
             then [''Port must be between 1 and 65535''] else [])
          @ (if imageQuality cfg < 1 \<or> imageQuality cfg > 100
             then [''Image quality must be between 1 and 100''] else [])
          @ (if maxFileSize cfg < 1024
             then [''Max file size must be at least 1KB''] else [])
          @ (if maxUploadsSize cfg < maxFileSize cfg
             then [''Max uploads size must be greater than max file size''] else [])
      in if length errors > 0 then Inl errors else Inr True)"

text \<open>
  \<^verbatim>\<open>validateConfiguration() { const errors = config.validate(); if (errors.length > 0) throw ... }\<close>
  The error of \<^verbatim>\<open>validate\<close> passes through. When \<^verbatim>\<open>validate\<close> returns, \<^verbatim>\<open>errors\<close> is \<^verbatim>\<open>true\<close>,
  \<^verbatim>\<open>errors.length\<close> is \<^verbatim>\<open>undefined\<close> and the comparison is false: nothing is thrown.
\<close>

definition validateConfiguration :: "config \<Rightarrow> string list + unit" where
  "validateConfiguration cfg =
     (case validate cfg of Inl errors \<Rightarrow> Inl errors | Inr ok \<Rightarrow> Inr ())"

text \<open>\<^verbatim>\<open>constructor() { ...; this.defaultQuality = config.imageQuality; }\<close>\<close>

record image_processor =
  defaultQuality :: int

definition newImageProcessor :: "config \<Rightarrow> image_processor" where
  "newImageProcessor cfg = \<lparr> defaultQuality = imageQuality cfg \<rparr>"

text \<open>
  \<^verbatim>\<open>initialize()\<close> of the server calls \<^verbatim>\<open>this.validateConfiguration()\<close> first and rethrows what
  it throws; \<^verbatim>\<open>setupRoutes\<close>, later in \<^verbatim>\<open>initialize\<close>, creates the photo controller, whose
  constructor creates the image processor that serves the requests. The entry point
  listens only when \<^verbatim>\<open>initialize\<close> has succeeded. The other steps of \<^verbatim>\<open>initialize\<close>
  (directories, middleware, services, scheduler) can only make it fail and are left out.
\<close>

definition initialize :: "config \<Rightarrow> string list + image_processor" where
  "initialize cfg =
     (case validateConfiguration cfg of
        Inl errors \<Rightarrow> Inl errors
      | Inr u \<Rightarrow> Inr (newImageProcessor cfg))"

subsection \<open>Pictures and the operations of sharp\<close>

text \<open>
  A decoded image: its dimensions and the samples of each pixel. The pixel \<open>(x, y)\<close> of a
  raw buffer is read as the detector reads it, from \<^verbatim>\<open>index = (y * width + x) * channels\<close>.
\<close>

record picture =
  pwidth :: nat
  pheight :: nat
  pixel :: "nat \<Rightarrow> nat \<Rightarrow> nat list"

definition pixelAt :: "raster \<Rightarrow> nat \<Rightarrow> nat \<Rightarrow> nat list" where
  "pixelAt f x y = take (channels f) (drop ((y * width f + x) * channels f) (data f))"

text \<open>
  The frame file as sharp decodes it, for the detector (\<^verbatim>\<open>raw().toBuffer()\<close>) and for the
  compositor (\<^verbatim>\<open>sharp(frameBuffer)\<close>, where \<^verbatim>\<open>frameBuffer\<close> is the frame file encoded again as
  PNG, which loses nothing).
\<close>

definition framePicture :: "raster \<Rightarrow> picture" where
  "framePicture f = \<lparr> pwidth = width f, pheight = height f, pixel = pixelAt f \<rparr>"

datatype request_error = FrameRequired | FrameNotFound | InvalidInput

text \<open>
  What the sharp library computes and the specification leaves open: the sample of a photo
  scaled to a given size at a given position (the interpolation), and the samples an image
  has after a JPEG encode of a given quality.
\<close>

record sharp =
  kernel :: "picture \<Rightarrow> nat \<Rightarrow> nat \<Rightarrow> nat \<Rightarrow> nat \<Rightarrow> nat list"
  jpegLoss :: "int \<Rightarrow> picture \<Rightarrow> nat \<Rightarrow> nat \<Rightarrow> nat list"

text \<open>
  Modelled from the spec: the cover-fit resize, \<^verbatim>\<open>resize(w, h, {fit: 'cover', position: 'center'})\<close>
  of the sharp library, which is not code of this repository. Specification 4.2: given a
  photo raster and a target rectangle \<open>(w, h)\<close>, produce a raster of exactly \<open>w\<close> by \<open>h\<close>
  pixels using cover-fit: scale the photo preserving aspect ratio until it fully covers
  \<open>w\<close> by \<open>h\<close>, then crop the overflow symmetrically (centered); a photo with a zero-length
  dimension signals \<^verbatim>\<open>InvalidInput\<close>, as do degenerate rectangle dimensions (7).
  The photo is scaled to the target width when that covers the target height, and to the
  target height otherwise; the other dimension of the scaled photo is rounded up.
\<close>

definition coverFit :: "sharp \<Rightarrow> picture \<Rightarrow> int \<Rightarrow> int \<Rightarrow> request_error + picture" where
  "coverFit lib photo w h =
     (if pwidth photo = 0 \<or> pheight photo = 0 \<or> w \<le> 0 \<or> h \<le> 0 then Inl InvalidInput
      else
        let targetWidth = nat w;
            targetHeight = nat h;
            toWidth = (targetHeight * pwidth photo \<le> targetWidth * pheight photo);
            scaledWidth = (if toWidth then targetWidth
                           else (pwidth photo * targetHeight + pheight photo - 1) div pheight photo);
            scaledHeight = (if toWidth
                            then (pheight photo * targetWidth + pwidth photo - 1) div pwidth photo
                            else targetHeight);
            cropLeft = (scaledWidth - targetWidth) div 2;
            cropTop = (scaledHeight - targetHeight) div 2
        in Inr \<lparr> pwidth = targetWidth, pheight = targetHeight,
                 pixel = (\<lambda>x y. kernel lib photo scaledWidth scaledHeight (x + cropLeft) (y + cropTop)) \<rparr>)"

text \<open>
  Modelled from the spec: the JPEG codec of the sharp library (\<^verbatim>\<open>jpeg({quality})\<close> and the
  decoding of what it wrote), which is not code of this repository. Specification 4.2 and
  6: \<^verbatim>\<open>encode(raster, format, quality)\<close> with a quality parameter is the lossy re-encoding; it
  changes samples, not dimensions.
\<close>

definition jpegEncode :: "sharp \<Rightarrow> int \<Rightarrow> picture \<Rightarrow> picture" where
  "jpegEncode lib quality p = \<lparr> pwidth = pwidth p, pheight = pheight p, pixel = jpegLoss lib quality p \<rparr>"

text \<open>
  Modelled from the spec: the compositor, \<^verbatim>\<open>composite([{input, top, left}])\<close> of the sharp
  library, which is not code of this repository. Specification 4.2: the compositor writes
  the fitted raster onto a copy of the frame raster at offset \<open>(left, top)\<close>. The pixel
  \<open>(x, y)\<close> of the copy is the pixel \<open>(x - left, y - top)\<close> of the written raster where that
  raster has one, and the pixel of the frame elsewhere.
\<close>

definition composite :: "picture \<Rightarrow> picture \<Rightarrow> int \<Rightarrow> int \<Rightarrow> picture" where
  "composite base overlay top' left' =
     \<lparr> pwidth = pwidth base, pheight = pheight base,
       pixel = (\<lambda>x y. if left' \<le> int x \<and> int x < left' + int (pwidth overlay)
                         \<and> top' \<le> int y \<and> int y < top' + int (pheight overlay)
                       then pixel overlay (nat (int x - left')) (nat (int y - top'))
                       else pixel base x y) \<rparr>"

text \<open>
  The operations a request asks of sharp, in the order of the calls: \<^verbatim>\<open>sharp(input)\<close>,
  \<^verbatim>\<open>metadata()\<close>, \<^verbatim>\<open>raw()\<close>, \<^verbatim>\<open>resize(w, h, ...)\<close>, \<^verbatim>\<open>jpeg({quality})\<close>, \<^verbatim>\<open>png()\<close>, \<^verbatim>\<open>toBuffer()\<close>,
  \<^verbatim>\<open>composite([{input, top, left}])\<close>, \<^verbatim>\<open>toFile(path)\<close>.
\<close>

datatype sharp_op =
    Open
  | Metadata
  | Raw
  | Resize int int
  | Jpeg int
  | Png
  | ToBuffer
  | Composite int int
  | ToFile

subsection \<open>The functions of the image processor\<close>

text \<open>
  The operations of \<^verbatim>\<open>detectFramePlacement\<close>, whose computation is \<^const>\<open>detectFramePlacement\<close>:
  \<^verbatim>\<open>const frame = sharp(framePath); const metadata = await frame.metadata();\<close>
  \<^verbatim>\<open>const { data, info } = await frame.raw().toBuffer({ resolveWithObject: true });\<close>
\<close>

definition detectFramePlacementOps :: "sharp_op list" where
  "detectFramePlacementOps = [Open, Metadata, Raw, ToBuffer]"

text \<open>
  \<^verbatim>\<open>applyFrame\<close>, for the frame file that \<^verbatim>\<open>getFramePath\<close> found. The result is the list of
  the operations asked of sharp and the composite, or the error that ends the function.
  \<^verbatim>\<open>const frameMetadata = await sharp(framePath).metadata();\<close>
  \<^verbatim>\<open>const placement = await this.detectFramePlacement(framePath);\<close>
  \<^verbatim>\<open>const resizedPhoto = await photo\<close>
  \<^verbatim>\<open>    .resize(placement.width, placement.height, { fit: 'cover', position: 'center' })\<close>
  \<^verbatim>\<open>    .jpeg({ quality: this.defaultQuality }).toBuffer();\<close>
  \<^verbatim>\<open>const frameBuffer = await sharp(framePath).png().toBuffer();\<close>
  \<^verbatim>\<open>return sharp(frameBuffer).composite([{input: resizedPhoto, top: placement.top, left: placement.left}]);\<close>
  The detector always returns a placement, so the check \<^verbatim>\<open>if (!placement)\<close> never throws.
\<close>

definition applyFrame :: "sharp \<Rightarrow> image_processor \<Rightarrow> picture \<Rightarrow> raster
                          \<Rightarrow> sharp_op list \<times> (request_error + picture)" where
  "applyFrame lib ip photo frame =
     (let frameMetadata = [Open, Metadata];
          placement = detectFramePlacement frame;
          resizing = [Resize (width_p placement) (height_p placement), Jpeg (defaultQuality ip), ToBuffer]
      in case coverFit lib photo (width_p placement) (height_p placement) of
           Inl e \<Rightarrow> (frameMetadata @ detectFramePlacementOps @ resizing, Inl e)
         | Inr fitted \<Rightarrow>
             (let resizedPhoto = jpegEncode lib (defaultQuality ip) fitted;
                  frameBuffer = framePicture frame
              in (frameMetadata @ detectFramePlacementOps @ resizing
                    @ [Open, Png, ToBuffer, Open, Composite (top_p placement) (left_p placement)],
                  Inr (composite frameBuffer resizedPhoto (top_p placement) (left_p placement)))))"

text \<open>
  \<^verbatim>\<open>processImage(imageBuffer, frameId = null, frameManager = null)\<close>, for the photo that
  \<^verbatim>\<open>imageBuffer\<close> decodes to: \<^verbatim>\<open>let photo = sharp(imageBuffer); const metadata = await photo.metadata();\<close>
  then a frame is required (\<^verbatim>\<open>null\<close> and the empty string are falsy) and must exist among
  the custom frames, here a map from frame ids to the frames' rasters.
\<close>

definition processImage :: "sharp \<Rightarrow> image_processor \<Rightarrow> (string \<rightharpoonup> raster) \<Rightarrow> picture \<Rightarrow> string option
                            \<Rightarrow> sharp_op list \<times> (request_error + picture)" where
  "processImage lib ip frames photo frameId =
     (let metadata = [Open, Metadata]
      in case frameId of
           None \<Rightarrow> (metadata, Inl FrameRequired)
         | Some fid \<Rightarrow>
             if fid = [] then (metadata, Inl FrameRequired)
             else (case frames fid of
                     None \<Rightarrow> (metadata, Inl FrameNotFound)
                   | Some frame \<Rightarrow>
                       (case applyFrame lib ip photo frame of
                          (ops, result) \<Rightarrow> (metadata @ ops, result))))"

text \<open>
  \<^verbatim>\<open>saveImage(photo, outputPath, quality = null)\<close>:
  \<^verbatim>\<open>const imageQuality = quality || this.defaultQuality;\<close>
  \<^verbatim>\<open>await photo.jpeg({ quality: imageQuality }).toFile(outputPath);\<close>
  The operator \<^verbatim>\<open>||\<close> takes the default for \<^verbatim>\<open>null\<close> and for 0. The result is the picture in
  the file.
\<close>

definition saveImage :: "sharp \<Rightarrow> image_processor \<Rightarrow> picture \<Rightarrow> int option \<Rightarrow> sharp_op list \<times> picture" where
  "saveImage lib ip photo quality =
     (let imageQuality = (case quality of
                            None \<Rightarrow> defaultQuality ip
                          | Some q \<Rightarrow> if q = 0 then defaultQuality ip else q)
      in ([Jpeg imageQuality, ToFile], jpegEncode lib imageQuality photo))"

text \<open>
  A compositing request, \<^verbatim>\<open>processPrintRequest\<close> of the photo controller, up to the saved
  output: \<^verbatim>\<open>processImage\<close>, then \<^verbatim>\<open>saveImage(processedPhoto, outputPath)\<close> with no quality
  argument.
\<close>

definition processPrintRequest :: "sharp \<Rightarrow> image_processor \<Rightarrow> (string \<rightharpoonup> raster) \<Rightarrow> picture
                                   \<Rightarrow> string option \<Rightarrow> sharp_op list \<times> (request_error + picture)" where
  "processPrintRequest lib ip frames photo frameId =
     (case processImage lib ip frames photo frameId of
        (ops, Inl e) \<Rightarrow> (ops, Inl e)
      | (ops, Inr processedPhoto) \<Rightarrow>
          (case saveImage lib ip processedPhoto None of
             (saving, saved) \<Rightarrow> (ops @ saving, Inr saved)))"

subsection \<open>Notions used to state the pipeline's properties\<close>

text \<open>The operations that encode lossily: JPEG; PNG is lossless.\<close>

definition lossyEncode :: "sharp_op \<Rightarrow> bool" where
  "lossyEncode op = (case op of Jpeg q \<Rightarrow> True | _ \<Rightarrow> False)"

text \<open>The pixel \<open>(x, y)\<close> lies in the placement rectangle.\<close>

definition inRectangle :: "placement \<Rightarrow> nat \<Rightarrow> nat \<Rightarrow> bool" where
  "inRectangle p x y \<longleftrightarrow> left_p p \<le> int x \<and> int x < left_p p + width_p p
                        \<and> top_p p \<le> int y \<and> int y < top_p p + height_p p"

text \<open>
  Test data: a sharp that takes the nearest sample when it scales and whose JPEG encode
  rounds every sample down to an even value; a photo of 4 by 2 pixels whose pixel \<open>(x, y)\<close>
  has the samples \<open>10 x + 1\<close>, \<open>10 y + 1\<close> and 7; the environment with no variable set.
\<close>

definition nearestSharp :: sharp where
  "nearestSharp =
     \<lparr> kernel = (\<lambda>p scaledWidth scaledHeight x y.
                   pixel p (x * pwidth p div scaledWidth) (y * pheight p div scaledHeight)),
       jpegLoss = (\<lambda>quality p x y. map (\<lambda>v. v - v mod 2) (pixel p x y)) \<rparr>"

definition smallPhoto :: picture where
  "smallPhoto = \<lparr> pwidth = 4, pheight = 2, pixel = (\<lambda>x y. [10 * x + 1, 10 * y + 1, 7]) \<rparr>"

definition noEnvironment :: environment where
  "noEnvironment = \<lparr> env_PORT = None, env_IMAGE_QUALITY = None, env_MAX_FILE_SIZE = None,
                     env_MAX_UPLOADS_SIZE = None \<rparr>"

section \<open>Properties of the transparency region detector\<close>

subsection \<open>What the scan computes\<close>

lemma fold_scanPixel: "fold (scanPixel f y) xs s = fold mark (map (\<lambda>x. (x, y)) (filter (\<lambda>x. isTransparent f x y) xs)) s"
  by (induction xs arbitrary: s) (simp_all add: scanPixel_def mark_def)

lemma scanRow_mark: "scanRow f y s = fold mark (rowPixels f y) s"
  by (simp add: scanRow_def rowPixels_def fold_scanPixel)

lemma fold_scanRow: "fold (scanRow f) ys s = fold mark (concat (map (rowPixels f) ys)) s"
  by (induction ys arbitrary: s) (simp_all add: scanRow_mark)

lemma scanFrame_mark: "scanFrame f = fold mark (framePixels f) (scanInit f)"
  by (simp add: scanFrame_def framePixels_def fold_scanRow)

lemma set_framePixels: "set (framePixels f) = transparentSet f"
  by (auto simp: framePixels_def rowPixels_def transparentSet_def)

lemma distinct_rows:
  "distinct ys \<Longrightarrow> (\<And>y. distinct (g y)) \<Longrightarrow>
   distinct (concat (map (\<lambda>y. map (\<lambda>x. (x, y)) (g y)) ys))"
  by (induction ys) (auto simp: distinct_map inj_on_def)

lemma distinct_framePixels: "distinct (framePixels f)"
  unfolding framePixels_def rowPixels_def by (rule distinct_rows) simp_all

lemma mark_count: "transparentPixels (fold mark ps s) = transparentPixels s + length ps"
  by (induction ps arbitrary: s) (simp_all add: mark_def)

lemma mark_has: "hasTransparentArea (fold mark ps s) = (hasTransparentArea s \<or> ps \<noteq> [])"
  by (induction ps arbitrary: s) (simp_all add: mark_def)

lemma Min_insert_min: "finite A \<Longrightarrow> Min (insert (min a b) A) = Min (insert a (insert b A))"
  by (cases "A = {}") (simp_all add: min.assoc)

lemma Max_insert_max: "finite A \<Longrightarrow> Max (insert (max a b) A) = Max (insert a (insert b A))"
  by (cases "A = {}") (simp_all add: max.assoc)

lemma mark_minX: "minX (fold mark ps s) = Min (insert (minX s) ((\<lambda>p. int (fst p)) ` set ps))"
  by (induction ps arbitrary: s) (simp_all add: mark_def Min_insert_min)

lemma mark_minY: "minY (fold mark ps s) = Min (insert (minY s) ((\<lambda>p. int (snd p)) ` set ps))"
  by (induction ps arbitrary: s) (simp_all add: mark_def Min_insert_min)

lemma mark_maxX: "maxX (fold mark ps s) = Max (insert (maxX s) ((\<lambda>p. int (fst p)) ` set ps))"
  by (induction ps arbitrary: s) (simp_all add: mark_def Max_insert_max)

lemma mark_maxY: "maxY (fold mark ps s) = Max (insert (maxY s) ((\<lambda>p. int (snd p)) ` set ps))"
  by (induction ps arbitrary: s) (simp_all add: mark_def Max_insert_max)

lemma length_framePixels: "length (framePixels f) = card (transparentSet f)"
  using distinct_card [OF distinct_framePixels, of f] by (simp add: set_framePixels)

lemma scanFrame_count: "transparentPixels (scanFrame f) = card (transparentSet f)"
  by (simp add: scanFrame_mark mark_count length_framePixels scanInit_def)

lemma scanFrame_has: "hasTransparentArea (scanFrame f) \<longleftrightarrow> transparentSet f \<noteq> {}"
  by (simp add: scanFrame_mark mark_has scanInit_def flip: set_framePixels)

lemma scanFrame_minX: "minX (scanFrame f) = Min (insert (int (width f)) ((\<lambda>p. int (fst p)) ` transparentSet f))"
  by (simp add: scanFrame_mark mark_minX set_framePixels scanInit_def)

lemma scanFrame_minY: "minY (scanFrame f) = Min (insert (int (height f)) ((\<lambda>p. int (snd p)) ` transparentSet f))"
  by (simp add: scanFrame_mark mark_minY set_framePixels scanInit_def)

lemma scanFrame_maxX: "maxX (scanFrame f) = Max (insert 0 ((\<lambda>p. int (fst p)) ` transparentSet f))"
  by (simp add: scanFrame_mark mark_maxX set_framePixels scanInit_def)

lemma scanFrame_maxY: "maxY (scanFrame f) = Max (insert 0 ((\<lambda>p. int (snd p)) ` transparentSet f))"
  by (simp add: scanFrame_mark mark_maxY set_framePixels scanInit_def)

lemma floor_fifth_div: "\<lfloor>real w / 5\<rfloor> = int (w div 5)"
  using floor_divide_of_nat_eq [of w 5] by simp

lemma opaque_without_alpha: "channels f \<noteq> 4 \<Longrightarrow> transparentSet f = {}"
  by (simp add: transparentSet_def isTransparent_def alphaAt_def)

lemma percentage_less_iff:
  "0 < t \<Longrightarrow> (real c / real t) * 100 < 5 \<longleftrightarrow> 100 * c < 5 * t"
proof -
  assume "0 < t"
  then have "(real c / real t) * 100 < 5 \<longleftrightarrow> real c * 100 < 5 * real t"
    by (simp add: field_simps)
  also have "\<dots> \<longleftrightarrow> real (100 * c) < real (5 * t)" by (simp add: mult.commute)
  also have "\<dots> \<longleftrightarrow> 100 * c < 5 * t" by (simp only: of_nat_less_iff)
  finally show ?thesis .
qed

subsection \<open>The test frame\<close>

lemma length_rgba: "length (concat (map (\<lambda>i. [r i, g i, b i, a i]) [0..<n])) = 4 * n"
  by (induction n) simp_all

lemma nth_rgba: "i < n \<Longrightarrow> concat (map (\<lambda>i. [r i, g i, b i, a i]) [0..<n]) ! (i * 4 + 3) = a i"
proof (induction n)
  case 0
  then show ?case by simp
next
  case (Suc n)
  show ?case
  proof (cases "i < n")
    case True
    then have "i * 4 + 3 < length (concat (map (\<lambda>i. [r i, g i, b i, a i]) [0..<n]))"
      by (simp add: length_rgba)
    with Suc True show ?thesis by (simp add: nth_append)
  next
    case False
    with Suc.prems have "i = n" by simp
    then show ?thesis by (simp add: nth_append length_rgba)
  qed
qed

lemma cutout_isTransparent:
  assumes "x < w" "y < h"
  shows "isTransparent (cutoutFrame w h l t rw rh) x y \<longleftrightarrow> l \<le> x \<and> x < l + rw \<and> t \<le> y \<and> y < t + rh"
proof -
  have "y * w + x < w * h"
  proof -
    have "y * w + x < y * w + w" using assms by simp
    also have "\<dots> = (Suc y) * w" by simp
    also have "\<dots> \<le> h * w" using assms by (intro mult_le_mono1) simp
    finally show ?thesis by (simp add: mult.commute)
  qed
  moreover have "(y * w + x) mod w = x" "(y * w + x) div w = y" using assms by simp_all
  moreover note nth_rgba [of "y * w + x" "w * h" "\<lambda>i. 255" "\<lambda>i. 255" "\<lambda>i. 255"
      "\<lambda>i. if l \<le> i mod w \<and> i mod w < l + rw \<and> t \<le> i div w \<and> i div w < t + rh then 0 else 255"]
  ultimately have "alphaAt (cutoutFrame w h l t rw rh) x y
      = Some (if l \<le> x \<and> x < l + rw \<and> t \<le> y \<and> y < t + rh then 0 else 255)"
    unfolding alphaAt_def cutoutFrame_def Let_def by (simp add: length_rgba del: upt_Suc)
  then show ?thesis by (simp add: isTransparent_def)
qed

lemma cutout_width: "width (cutoutFrame w h l t rw rh) = w"
  by (simp add: cutoutFrame_def)

lemma cutout_height: "height (cutoutFrame w h l t rw rh) = h"
  by (simp add: cutoutFrame_def)

lemma cutout_transparentSet:
  "l + rw \<le> w \<Longrightarrow> t + rh \<le> h \<Longrightarrow>
   transparentSet (cutoutFrame w h l t rw rh) = {l..<l + rw} \<times> {t..<t + rh}"
  unfolding transparentSet_def
  by (auto simp: cutout_isTransparent cutout_width cutout_height)

text \<open>
  The placement for a frame of 20 by 2 pixels whose last two columns are transparent.
\<close>

lemma placement_near_edge:
  "detectFramePlacement (cutoutFrame 20 2 18 0 2 2)
     = \<lparr> top_p = 0, left_p = 18, width_p = 2, height_p = 2 \<rparr>"
  by code_simp

subsection \<open>The claims about the detector\<close>

text \<open>
  Claim C8. A frame that has no alpha channel, or no pixel with alpha below 25, or whose
  pixels with alpha below 25 are fewer than 5 percent of its pixels, gets the full-frame
  rectangle \<^verbatim>\<open>{top: 0, left: 0, width: frameWidth, height: frameHeight}\<close>.
\<close>

theorem detectFramePlacement_fallback:
  "channels f \<noteq> 4 \<or> transparentSet f = {} \<or> 100 * card (transparentSet f) < 5 * (width f * height f)
   \<Longrightarrow> detectFramePlacement f
       = \<lparr> top_p = 0, left_p = 0, width_p = int (width f), height_p = int (height f) \<rparr>"
proof -
  assume h: "channels f \<noteq> 4 \<or> transparentSet f = {} \<or> 100 * card (transparentSet f) < 5 * (width f * height f)"
  have "\<not> hasTransparentArea (scanFrame f) \<or> transparentPercentage f (scanFrame f) < 5"
  proof (cases "transparentSet f = {}")
    case True
    then show ?thesis by (simp add: scanFrame_has)
  next
    case False
    with h opaque_without_alpha have lt: "100 * card (transparentSet f) < 5 * (width f * height f)"
      by blast
    then have "0 < width f * height f" by (cases "width f * height f") simp_all
    then have "transparentPercentage f (scanFrame f) < 5"
      unfolding transparentPercentage_def scanFrame_count using lt
      by (simp only: percentage_less_iff)
    then show ?thesis ..
  qed
  then show ?thesis by (auto simp add: detectFramePlacement_def Let_def)
qed

text \<open>
  A frame of 10 by 10 pixels with a transparent square of 2 by 2 pixels: 4 percent of the
  frame.
\<close>

theorem detectFramePlacement_fallback_witness:
  "100 * card (transparentSet (cutoutFrame 10 10 4 4 2 2)) < 5 * (10 * 10)
   \<and> detectFramePlacement (cutoutFrame 10 10 4 4 2 2)
       = \<lparr> top_p = 0, left_p = 0, width_p = 10, height_p = 10 \<rparr>"
proof -
  let ?F = "cutoutFrame 10 10 4 4 2 2"
  have c: "card (transparentSet ?F) = 4"
    by (simp add: cutout_transparentSet)
  have h: "100 * card (transparentSet ?F) < 5 * (width ?F * height ?F)"
    by (simp add: c cutout_width cutout_height)
  from detectFramePlacement_fallback [of ?F] h
  have "detectFramePlacement ?F
      = \<lparr> top_p = 0, left_p = 0, width_p = int (width ?F), height_p = int (height ?F) \<rparr>"
    by blast
  then show ?thesis using c by (simp add: cutout_width cutout_height)
qed

lemma rect_fst: "0 < rh \<Longrightarrow> (\<lambda>p. int (fst p)) ` ({l..<l + rw} \<times> {t..<t + rh :: nat}) = int ` {l..<l + rw}"
proof -
  assume "0 < rh"
  then have "{t..<t + rh} \<noteq> {}" by simp
  then have "fst ` ({l..<l + rw} \<times> {t..<t + rh}) = {l..<l + rw}" by (simp only: fst_image_times if_False)
  then show ?thesis by (simp only: image_image [symmetric, of int fst])
qed

lemma rect_snd: "0 < rw \<Longrightarrow> (\<lambda>p. int (snd p)) ` ({l..<l + rw :: nat} \<times> {t..<t + rh}) = int ` {t..<t + rh}"
proof -
  assume "0 < rw"
  then have "{l..<l + rw} \<noteq> {}" by simp
  then have "snd ` ({l..<l + rw} \<times> {t..<t + rh}) = {t..<t + rh}" by (simp only: snd_image_times if_False)
  then show ?thesis by (simp only: image_image [symmetric, of int snd])
qed

lemma Min_interval: "0 < n \<Longrightarrow> a + n \<le> w \<Longrightarrow> Min (insert (int w) (int ` {a..<a + n})) = int a"
  by (rule Min_eqI) auto

lemma Max_interval: "0 < n \<Longrightarrow> Max (insert 0 (int ` {a..<a + n})) = int (a + n - 1)"
proof (rule Max_eqI)
  assume "0 < n"
  then have "a + n - 1 \<in> {a..<a + n}" by simp
  then show "int (a + n - 1) \<in> insert 0 (int ` {a..<a + n})" by blast
qed auto

text \<open>
  Claim C1. When the pixels with alpha below 25 are exactly the pixels of a rectangle of
  \<open>rw\<close> by \<open>rh\<close> pixels with top left corner \<open>(l, t)\<close>, the rectangle covers at least 5 percent
  of the frame and each of its sides is at least 20 percent (rounded down) of the frame's
  side, \<^verbatim>\<open>detectFramePlacement\<close> returns exactly that rectangle.
\<close>

theorem detectFramePlacement_rectangle:
  assumes R: "transparentSet f = {l..<l + rw} \<times> {t..<t + rh}"
    and pos: "0 < rw" "0 < rh"
    and cover: "5 * (width f * height f) \<le> 100 * (rw * rh)"
    and large: "width f div 5 \<le> rw" "height f div 5 \<le> rh"
  shows "detectFramePlacement f
       = \<lparr> top_p = int t, left_p = int l, width_p = int rw, height_p = int rh \<rparr>"
proof -
  from pos have "(l, t) \<in> {l..<l + rw} \<times> {t..<t + rh}" "(l + rw - 1, t + rh - 1) \<in> {l..<l + rw} \<times> {t..<t + rh}" by auto
  with R have "(l, t) \<in> transparentSet f" "(l + rw - 1, t + rh - 1) \<in> transparentSet f" by simp_all
  then have inside: "l + rw \<le> width f" "t + rh \<le> height f"
    by (auto simp: transparentSet_def)
  have ne: "transparentSet f \<noteq> {}" using R pos by auto
  have cnt: "card (transparentSet f) = rw * rh" by (simp add: R)
  have total: "0 < width f * height f" using inside pos by simp
  have pct: "\<not> transparentPercentage f (scanFrame f) < 5"
    using cover by (simp only: transparentPercentage_def scanFrame_count percentage_less_iff [OF total] cnt not_less)
  have mnX: "minX (scanFrame f) = int l"
    by (simp only: scanFrame_minX R rect_fst [OF pos(2)] Min_interval [OF pos(1) inside(1)])
  have mnY: "minY (scanFrame f) = int t"
    by (simp only: scanFrame_minY R rect_snd [OF pos(1)] Min_interval [OF pos(2) inside(2)])
  have mxX: "maxX (scanFrame f) = int (l + rw - 1)"
    by (simp only: scanFrame_maxX R rect_fst [OF pos(2)] Max_interval [OF pos(1)])
  have mxY: "maxY (scanFrame f) = int (t + rh - 1)"
    by (simp only: scanFrame_maxY R rect_snd [OF pos(1)] Max_interval [OF pos(2)])
  show ?thesis
    using ne pct pos inside large
    by (simp add: detectFramePlacement_def Let_def scanFrame_has mnX mnY mxX mxY floor_fifth_div)
qed

text \<open>
  The scenario of the specification: a frame of 1000 by 1000 pixels with a transparent
  rectangle of 400 by 300 pixels at x = 300, y = 350.
\<close>

theorem detectFramePlacement_rectangle_witness:
  "detectFramePlacement (cutoutFrame 1000 1000 300 350 400 300)
     = \<lparr> top_p = 350, left_p = 300, width_p = 400, height_p = 300 \<rparr>"
  using detectFramePlacement_rectangle [of "cutoutFrame 1000 1000 300 350 400 300" 300 400 350 300]
  by (simp add: cutout_transparentSet cutout_width cutout_height)

text \<open>
  Claim C4, as the code has it. The minimum of 20 percent is applied first and the clamp to
  the frame's right and bottom edge afterwards, so each returned side is at least the
  smaller of 20 percent of the frame's side (rounded down) and the distance from the
  rectangle's origin to the frame's edge.
\<close>

theorem detectFramePlacement_minimum:
  "min \<lfloor>real (width f) * 0.2\<rfloor> (int (width f) - left_p (detectFramePlacement f)) \<le> width_p (detectFramePlacement f)
 \<and> min \<lfloor>real (height f) * 0.2\<rfloor> (int (height f) - top_p (detectFramePlacement f)) \<le> height_p (detectFramePlacement f)"
  by (simp add: detectFramePlacement_def Let_def floor_fifth_div min_def max_def)

text \<open>
  A frame of 20 by 2 pixels whose last two columns are transparent (10 percent of the
  frame): the rectangle starts at x = 18, where two columns are left, so its width is 2,
  less than the 4 pixels that are 20 percent of the frame's width.
\<close>

theorem detectFramePlacement_minimum_witness:
  "detectFramePlacement (cutoutFrame 20 2 18 0 2 2)
     = \<lparr> top_p = 0, left_p = 18, width_p = 2, height_p = 2 \<rparr>
   \<and> min \<lfloor>real (20::nat) * 0.2\<rfloor> (int 20 - 18) \<le> (2::int)
   \<and> min \<lfloor>real (2::nat) * 0.2\<rfloor> (int 2 - 0) \<le> (2::int)"
proof -
  let ?F = "cutoutFrame 20 2 18 0 2 2"
  from detectFramePlacement_minimum [of ?F] show ?thesis
    unfolding placement_near_edge cutout_width cutout_height by simp
qed

text \<open>
  Claim C4 as stated fails on a frame of 10 by 1 pixels whose last pixel alone is
  transparent: 20 percent of the frame's width is 2 pixels and the returned width is 1.
\<close>

theorem detectFramePlacement_minimum_counterexample:
  "\<not> (\<lfloor>real (width \<lparr> width = 10, height = 1, channels = 4, data = replicate 36 255 @ [0, 0, 0, 0] \<rparr>) * 0.2\<rfloor>
        \<le> width_p (detectFramePlacement
                     \<lparr> width = 10, height = 1, channels = 4, data = replicate 36 255 @ [0, 0, 0, 0] \<rparr>))"
proof -
  have "detectFramePlacement \<lparr> width = 10, height = 1, channels = 4, data = replicate 36 255 @ [0, 0, 0, 0] \<rparr>
     = \<lparr> top_p = 0, left_p = 9, width_p = 1, height_p = 1 \<rparr>"
    by code_simp
  then show ?thesis by simp
qed

section \<open>Properties of the retention passes\<close>

subsection \<open>Deleting from the directory\<close>

lemma without_empty: "without {} u = u"
  by (simp add: without_def)

lemma without_without: "without M (without N u) = without (N \<union> M) u"
  by (simp add: without_def conj_commute)

lemma fs_unlink_ok:
  "n \<in> name ` set (entries u) \<Longrightarrow> n \<notin> set (undeletable u) \<Longrightarrow> fs_unlink u n = Inr (without {n} u)"
  by (simp add: fs_unlink_def without_def)

lemma fs_unlink_Inr: "fs_unlink u n = Inr u' \<Longrightarrow> u' = without {n} u \<and> n \<in> name ` set (entries u) \<and> n \<notin> set (undeletable u)"
  by (auto simp: fs_unlink_def without_def split: if_splits)

lemma fs_unlink_refused:
  "n \<in> name ` set (entries u) \<Longrightarrow> n \<in> set (undeletable u) \<Longrightarrow> fs_unlink u n = Inl EACCES"
  by (simp add: fs_unlink_def)

lemma without_fields:
  "readable (without N u) = readable u \<and> undeletable (without N u) = undeletable u
   \<and> entries (without N u) = filter (\<lambda>g. name g \<notin> N) (entries u)"
  by (simp add: without_def)


lemma sizeLoop_Inr:
  "sizeLoop cfg fs u d t = (u', Inr r) \<Longrightarrow>
     u' = without (name ` set (overBudget (maxSize cfg) fs t)) u
   \<and> deletedCount r = d + length (overBudget (maxSize cfg) fs t)
   \<and> totalSize r = t - sum_list (map size_b (overBudget (maxSize cfg) fs t))"
proof (induction fs arbitrary: u d t)
  case Nil
  then show ?case by (auto simp: without_empty)
next
  case (Cons f fs)
  show ?case
  proof (cases "t \<le> maxSize cfg")
    case True
    with Cons.prems show ?thesis by (auto simp: sizeTurn_def without_empty)
  next
    case False
    with Cons.prems obtain u1 where u1: "fs_unlink u (name f) = Inr u1"
      and rest: "sizeLoop cfg fs u1 (d + 1) (t - size_b f) = (u', Inr r)"
      by (auto simp: sizeTurn_def split: sum.splits)
    from fs_unlink_Inr [OF u1] have "u1 = without {name f} u" by simp
    with Cons.IH [OF rest] False show ?thesis
      by (auto simp: without_without intro!: arg_cong2 [where f = without])
  qed
qed

lemma overBudget_prefix: "overBudget m fs t = take (length (overBudget m fs t)) fs"
  by (induction fs arbitrary: t) simp_all

lemma overBudget_enough:
  "t = sum_list (map size_b fs) \<Longrightarrow> 0 \<le> m \<Longrightarrow> t - sum_list (map size_b (overBudget m fs t)) \<le> m"
  by (induction fs arbitrary: t) simp_all

lemma overBudget_needed:
  "j < length (overBudget m fs t) \<Longrightarrow> m < t - sum_list (map size_b (take j fs))"
proof (induction fs arbitrary: t j)
  case Nil
  then show ?case by simp
next
  case (Cons f fs)
  from Cons.prems have above: "\<not> t \<le> m" by (auto split: if_splits)
  show ?case
  proof (cases j)
    case 0
    with above show ?thesis by simp
  next
    case (Suc i)
    with Cons.prems above have "i < length (overBudget m fs (t - size_b f))" by simp
    from Cons.IH [OF this] Suc show ?thesis by simp
  qed
qed

lemma sum_list_insort_key: "sum_list (map h (insort_key key x xs)) = h x + sum_list (map h xs)"
  for h :: "'a \<Rightarrow> int"
  by (induction xs) simp_all

lemma sum_list_sort_key: "sum_list (map h (sort_key key xs)) = sum_list (map h xs)"
  for h :: "'a \<Rightarrow> int"
  by (induction xs) (simp_all add: sum_list_insort_key)

lemma getUploadFiles_without:
  "getUploadFiles cfg (without N u) = filter (\<lambda>g. name g \<notin> N) (getUploadFiles cfg u)"
  by (auto simp: getUploadFiles_listing without_def conj_commute intro: filter_cong)

lemma sorted_take_drop:
  assumes "sorted (map key xs)" "d \<in> set (take k xs)" "g \<in> set (drop k xs)"
  shows "key d \<le> key g"
proof -
  have "sorted (map key (take k xs) @ map key (drop k xs))"
    using assms(1) by (simp flip: map_append)
  then show ?thesis using assms(2,3) by (auto simp: sorted_append)
qed

text \<open>
  Claim C5. When the total size of the listed artifacts is above the size budget and the
  pass returns, it has deleted the first \<^verbatim>\<open>deletedCount\<close> artifacts of the listing sorted by
  ascending \<^verbatim>\<open>mtime\<close> and nothing else; the total it returns is the sum of what is left and is
  within the budget; before each deletion the total was still above the budget; and no
  deleted artifact is younger than an artifact that is retained.
\<close>

theorem cleanBySize_oldest_first:
  assumes run: "cleanBySize cfg u = (u', Inr r)"
    and over: "maxSize cfg < sum_list (map size_b (getUploadFiles cfg u))"
    and budget: "0 \<le> maxSize cfg"
  shows "u' = without (name ` set (take (deletedCount r) (sort_key mtime (getUploadFiles cfg u)))) u
       \<and> totalSize r = sum_list (map size_b (getUploadFiles cfg u))
                        - sum_list (map size_b (take (deletedCount r) (sort_key mtime (getUploadFiles cfg u))))
       \<and> totalSize r \<le> maxSize cfg
       \<and> (\<forall>j < deletedCount r.
             maxSize cfg < sum_list (map size_b (getUploadFiles cfg u))
                           - sum_list (map size_b (take j (sort_key mtime (getUploadFiles cfg u)))))
       \<and> (\<forall>d \<in> set (take (deletedCount r) (sort_key mtime (getUploadFiles cfg u))).
            \<forall>g \<in> set (getUploadFiles cfg u'). mtime d \<le> mtime g)"
proof -
  define files where "files = getUploadFiles cfg u"
  define total where "total = sum_list (map size_b files)"
  define srt where "srt = sort_key mtime files"
  define del where "del = overBudget (maxSize cfg) srt total"
  from run over have loop: "sizeLoop cfg srt u 0 total = (u', Inr r)"
    by (simp add: cleanBySize_def Let_def files_def total_def srt_def)
  from sizeLoop_Inr [OF loop]
  have u': "u' = without (name ` set del) u" and k: "deletedCount r = length del"
    and tot: "totalSize r = total - sum_list (map size_b del)"
    by (simp_all add: del_def)
  have del: "del = take (deletedCount r) srt"
    using overBudget_prefix [of "maxSize cfg" srt total] by (simp add: k del_def)
  have sum_srt: "sum_list (map size_b srt) = total"
    by (simp add: srt_def total_def sum_list_sort_key)
  have enough: "totalSize r \<le> maxSize cfg"
    using overBudget_enough [of total srt "maxSize cfg"] budget by (simp add: tot del_def sum_srt)
  have needed: "\<forall>j < deletedCount r. maxSize cfg < total - sum_list (map size_b (take j srt))"
    using overBudget_needed [of _ "maxSize cfg" srt total] by (simp add: k del_def)
  have order: "\<forall>d \<in> set (take (deletedCount r) srt). \<forall>g \<in> set (getUploadFiles cfg u'). mtime d \<le> mtime g"
  proof (intro ballI)
    fix d g
    assume d: "d \<in> set (take (deletedCount r) srt)" and g: "g \<in> set (getUploadFiles cfg u')"
    from g have "g \<in> set files" "name g \<notin> name ` set del"
      by (simp_all add: u' getUploadFiles_without files_def)
    then have "g \<in> set srt" "g \<notin> set del"
      by (auto simp: srt_def)
    then have "g \<in> set srt" "g \<notin> set (take (deletedCount r) srt)"
      using del by simp_all
    then have gd: "g \<in> set (drop (deletedCount r) srt)"
      by (metis Un_iff append_take_drop_id set_append)
    have ss: "sorted (map mtime srt)" by (simp add: srt_def)
    from sorted_take_drop [OF ss d gd] show "mtime d \<le> mtime g" .
  qed
  show ?thesis
    using u' tot enough needed order
    unfolding del files_def [symmetric] srt_def [symmetric] total_def [symmetric] by blast
qed

text \<open>
  The scenario of the specification: five artifacts of the same age, 10MB each, under a
  budget of 35MB. Two are deleted and 30MB are retained; with one deletion less, 40MB
  would be.
\<close>

theorem cleanBySize_oldest_first_witness:
  "cleanBySize budget35 fiveArtifacts
     = (fiveArtifacts\<lparr> entries := [\<lparr> name = ''c.jpg'', size_b = 10485760, mtime = 1000 \<rparr>,
                                    \<lparr> name = ''d.jpg'', size_b = 10485760, mtime = 1000 \<rparr>,
                                    \<lparr> name = ''e.jpg'', size_b = 10485760, mtime = 1000 \<rparr>] \<rparr>,
        Inr \<lparr> deletedCount = 2, totalSize = 31457280 \<rparr>)
   \<and> (31457280 :: int) \<le> maxSize budget35
   \<and> maxSize budget35 < 31457280 + 10485760"
proof -
  let ?u' = "fiveArtifacts\<lparr> entries := [\<lparr> name = ''c.jpg'', size_b = 10485760, mtime = 1000 \<rparr>,
                                    \<lparr> name = ''d.jpg'', size_b = 10485760, mtime = 1000 \<rparr>,
                                    \<lparr> name = ''e.jpg'', size_b = 10485760, mtime = 1000 \<rparr>] \<rparr>"
  let ?r = "\<lparr> deletedCount = 2, totalSize = 31457280 \<rparr>"
  have run: "cleanBySize budget35 fiveArtifacts = (?u', Inr ?r)"
    by code_simp
  have over: "maxSize budget35 < sum_list (map size_b (getUploadFiles budget35 fiveArtifacts))"
    by code_simp
  have budget: "0 \<le> maxSize budget35"
    by code_simp
  have srt: "sum_list (map size_b (getUploadFiles budget35 fiveArtifacts))
            - sum_list (map size_b (take 1 (sort_key mtime (getUploadFiles budget35 fiveArtifacts))))
          = 31457280 + 10485760"
    by code_simp
  from cleanBySize_oldest_first [OF run over budget]
  have "totalSize ?r \<le> maxSize budget35"
    and "\<forall>j < deletedCount ?r.
             maxSize budget35 < sum_list (map size_b (getUploadFiles budget35 fiveArtifacts))
                           - sum_list (map size_b (take j (sort_key mtime (getUploadFiles budget35 fiveArtifacts))))"
    by blast+
  then have "(31457280 :: int) \<le> maxSize budget35" "maxSize budget35 < 31457280 + 10485760"
    using srt by (simp, auto dest!: spec [where x = 1])
  with run show ?thesis by simp
qed

lemma deletable_without: "deletable (without N u) = deletable u"
  by (simp add: deletable_def without_fields fun_eq_iff)

lemma subset_without:
  assumes "distinct (map name (f # fs))" "set fs \<subseteq> set (entries u)"
  shows "set fs \<subseteq> set (entries (without {name f} u))"
proof
  fix g assume g: "g \<in> set fs"
  with assms have "name g \<noteq> name f" by (metis distinct.simps(2) imageI list.simps(9) set_map)
  with g assms show "g \<in> set (entries (without {name f} u))"
    by (auto simp: without_fields)
qed

lemma ageLoop_run:
  assumes "distinct (map name fs)" "set fs \<subseteq> set (entries u)"
  shows "ageLoop cfg now fs u d t =
     (let c = filter (overAge cfg now) fs; done = takeWhile (deletable u) c
      in (without (name ` set done) u,
          if done = c
          then Inr \<lparr> deletedCount = d + length c,
                     totalSize = t + sum_list (map size_b (filter (\<lambda>f. \<not> overAge cfg now f) fs)) \<rparr>
          else Inl EACCES))"
  using assms
proof (induction fs arbitrary: u d t)
  case Nil
  then show ?case by (simp add: without_empty)
next
  case (Cons f fs)
  from Cons.prems have dfs: "distinct (map name fs)" and sub: "set fs \<subseteq> set (entries u)"
    and fin: "name f \<in> name ` set (entries u)" by auto
  show ?case
  proof (cases "overAge cfg now f")
    case False
    with Cons.IH [OF dfs sub, of d "t + size_b f"] show ?thesis
      by (simp add: ageTurn_def overAge_def Let_def add.assoc)
  next
    case old: True
    show ?thesis
    proof (cases "deletable u f")
      case True
      then have u1: "fs_unlink u (name f) = Inr (without {name f} u)"
        using fin by (intro fs_unlink_ok) (simp_all add: deletable_def)
      have sub1: "set fs \<subseteq> set (entries (without {name f} u))"
        by (rule subset_without [OF Cons.prems(1) sub])
      show ?thesis
        using Cons.IH [OF dfs sub1, of "d + 1" t] old True u1
        by (simp add: ageTurn_def overAge_def [symmetric] Let_def deletable_without without_without
                 del: overAge_def)
    next
      case False
      then have "fs_unlink u (name f) = Inl EACCES"
        using fin by (intro fs_unlink_refused) (simp_all add: deletable_def)
      with old False show ?thesis
        by (simp add: ageTurn_def overAge_def [symmetric] Let_def without_empty)
    qed
  qed
qed

lemma sizeLoop_run:
  assumes "distinct (map name fs)" "set fs \<subseteq> set (entries u)"
  shows "sizeLoop cfg fs u d t =
     (let c = overBudget (maxSize cfg) fs t; done = takeWhile (deletable u) c
      in (without (name ` set done) u,
          if done = c
          then Inr \<lparr> deletedCount = d + length c, totalSize = t - sum_list (map size_b c) \<rparr>
          else Inl EACCES))"
  using assms
proof (induction fs arbitrary: u d t)
  case Nil
  then show ?case by (simp add: without_empty)
next
  case (Cons f fs)
  from Cons.prems have dfs: "distinct (map name fs)" and sub: "set fs \<subseteq> set (entries u)"
    and fin: "name f \<in> name ` set (entries u)" by auto
  show ?case
  proof (cases "t \<le> maxSize cfg")
    case True
    then show ?thesis by (simp add: sizeTurn_def without_empty)
  next
    case over: False
    show ?thesis
    proof (cases "deletable u f")
      case True
      then have u1: "fs_unlink u (name f) = Inr (without {name f} u)"
        using fin by (intro fs_unlink_ok) (simp_all add: deletable_def)
      have sub1: "set fs \<subseteq> set (entries (without {name f} u))"
        by (rule subset_without [OF Cons.prems(1) sub])
      show ?thesis
        using Cons.IH [OF dfs sub1, of "d + 1" "t - size_b f"] over True u1
        by (simp add: sizeTurn_def Let_def deletable_without without_without)
    next
      case False
      then have "fs_unlink u (name f) = Inl EACCES"
        using fin by (intro fs_unlink_refused) (simp_all add: deletable_def)
      with over False show ?thesis
        by (simp add: sizeTurn_def Let_def without_empty)
    qed
  qed
qed

lemma distinct_map_insort_key:
  "distinct (map h (insort_key key x xs)) \<longleftrightarrow> h x \<notin> h ` set xs \<and> distinct (map h xs)"
  by (induction xs) (auto simp: set_insort_key)

lemma distinct_map_sort_key: "distinct (map h (sort_key key xs)) \<longleftrightarrow> distinct (map h xs)"
  by (induction xs) (simp_all add: distinct_map_insort_key)

lemma getUploadFiles_subset: "set (getUploadFiles cfg u) \<subseteq> set (entries u)"
  by (auto simp: getUploadFiles_listing)

lemma getUploadFiles_distinct:
  "distinct (map name (entries u)) \<Longrightarrow> distinct (map name (getUploadFiles cfg u))"
  by (simp add: getUploadFiles_listing distinct_map_filter)

text \<open>
  Claim C3, as the code has it. A pass deletes its candidates in its order up to the first
  one whose deletion fails. If none fails it returns \<^verbatim>\<open>{deletedCount, totalSize}\<close>; otherwise
  it rethrows the error of that deletion: the candidates after it are not visited and no
  result is returned.
\<close>

theorem retention_pass_stops_at_failure:
  assumes "distinct (map name (entries u))"
  shows "cleanOldFiles cfg now u =
           (let c = ageCandidates cfg now u; done = takeWhile (deletable u) c
            in (without (name ` set done) u,
                if done = c
                then Inr \<lparr> deletedCount = length c,
                           totalSize = sum_list (map size_b (filter (\<lambda>f. \<not> overAge cfg now f)
                                                               (getUploadFiles cfg u))) \<rparr>
                else Inl EACCES))
       \<and> cleanBySize cfg u =
           (let c = sizeCandidates cfg u; done = takeWhile (deletable u) c
            in (without (name ` set done) u,
                if done = c
                then Inr \<lparr> deletedCount = length c,
                           totalSize = sum_list (map size_b (getUploadFiles cfg u))
                                       - sum_list (map size_b c) \<rparr>
                else Inl EACCES))"
proof
  from assms have d: "distinct (map name (getUploadFiles cfg u))"
    by (rule getUploadFiles_distinct)
  show "cleanOldFiles cfg now u =
           (let c = ageCandidates cfg now u; done = takeWhile (deletable u) c
            in (without (name ` set done) u,
                if done = c
                then Inr \<lparr> deletedCount = length c,
                           totalSize = sum_list (map size_b (filter (\<lambda>f. \<not> overAge cfg now f)
                                                               (getUploadFiles cfg u))) \<rparr>
                else Inl EACCES))"
    unfolding cleanOldFiles_def ageCandidates_def
    using ageLoop_run [OF d getUploadFiles_subset, of cfg now 0 0] by (simp add: Let_def)
  let ?files = "getUploadFiles cfg u"
  let ?total = "sum_list (map size_b ?files)"
  show "cleanBySize cfg u =
           (let c = sizeCandidates cfg u; done = takeWhile (deletable u) c
            in (without (name ` set done) u,
                if done = c
                then Inr \<lparr> deletedCount = length c,
                           totalSize = sum_list (map size_b (getUploadFiles cfg u))
                                       - sum_list (map size_b c) \<rparr>
                else Inl EACCES))"
  proof (cases "?total \<le> maxSize cfg")
    case True
    then have "sizeCandidates cfg u = []"
      unfolding sizeCandidates_def by (cases "sort_key mtime ?files") simp_all
    with True show ?thesis by (simp add: cleanBySize_def Let_def without_empty)
  next
    case False
    have ds: "distinct (map name (sort_key mtime ?files))"
      using d by (simp add: distinct_map_sort_key)
    have sub: "set (sort_key mtime ?files) \<subseteq> set (entries u)"
      using getUploadFiles_subset [of cfg u] by simp
    from False sizeLoop_run [OF ds sub, of cfg 0 ?total] show ?thesis
      by (simp add: cleanBySize_def Let_def sizeCandidates_def)
  qed
qed

text \<open>
  Three files older than a day, 70MB each; the second cannot be deleted. Either pass
  deletes the first file and throws at the second; the third stays.
\<close>

theorem retention_pass_stops_at_failure_witness:
  "distinct (map name (entries threeOld))
   \<and> cleanOldFiles defaultConfig 86400010 threeOld
       = (threeOld\<lparr> entries := [\<lparr> name = ''p2.jpg'', size_b = 70000000, mtime = 2 \<rparr>,
                                 \<lparr> name = ''p3.jpg'', size_b = 70000000, mtime = 3 \<rparr>] \<rparr>, Inl EACCES)
   \<and> cleanBySize defaultConfig threeOld
       = (threeOld\<lparr> entries := [\<lparr> name = ''p2.jpg'', size_b = 70000000, mtime = 2 \<rparr>,
                                 \<lparr> name = ''p3.jpg'', size_b = 70000000, mtime = 3 \<rparr>] \<rparr>, Inl EACCES)"
proof -
  have d: "distinct (map name (entries threeOld))"
    by code_simp
  have a: "(let c = ageCandidates defaultConfig 86400010 threeOld; done = takeWhile (deletable threeOld) c
            in (without (name ` set done) threeOld,
                if done = c
                then Inr \<lparr> deletedCount = length c,
                           totalSize = sum_list (map size_b (filter (\<lambda>f. \<not> overAge defaultConfig 86400010 f)
                                                               (getUploadFiles defaultConfig threeOld))) \<rparr>
                else Inl EACCES))
        = (threeOld\<lparr> entries := [\<lparr> name = ''p2.jpg'', size_b = 70000000, mtime = 2 \<rparr>,
                                 \<lparr> name = ''p3.jpg'', size_b = 70000000, mtime = 3 \<rparr>] \<rparr>, Inl EACCES)"
    by code_simp
  have s: "(let c = sizeCandidates defaultConfig threeOld; done = takeWhile (deletable threeOld) c
            in (without (name ` set done) threeOld,
                if done = c
                then Inr \<lparr> deletedCount = length c,
                           totalSize = sum_list (map size_b (getUploadFiles defaultConfig threeOld))
                                       - sum_list (map size_b c) \<rparr>
                else Inl EACCES))
        = (threeOld\<lparr> entries := [\<lparr> name = ''p2.jpg'', size_b = 70000000, mtime = 2 \<rparr>,
                                 \<lparr> name = ''p3.jpg'', size_b = 70000000, mtime = 3 \<rparr>] \<rparr>, Inl EACCES)"
    by code_simp
  from retention_pass_stops_at_failure [OF d, of defaultConfig 86400010] d show ?thesis
    unfolding a s by simp
qed

text \<open>
  Claim C3 as stated fails there: the age pass throws, and the third file, over-age and
  deletable, is still in the directory.
\<close>

theorem retention_pass_throws_counterexample:
  "cleanOldFiles defaultConfig 86400010 threeOld
     = (threeOld\<lparr> entries := [\<lparr> name = ''p2.jpg'', size_b = 70000000, mtime = 2 \<rparr>,
                               \<lparr> name = ''p3.jpg'', size_b = 70000000, mtime = 3 \<rparr>] \<rparr>, Inl EACCES)
   \<and> overAge defaultConfig 86400010 \<lparr> name = ''p3.jpg'', size_b = 70000000, mtime = 3 \<rparr>
   \<and> deletable threeOld \<lparr> name = ''p3.jpg'', size_b = 70000000, mtime = 3 \<rparr>"
  by code_simp

subsection \<open>Only image files are considered\<close>

lemma getUploadFiles_imagesOnly: "getUploadFiles cfg (imagesOnly cfg u) = getUploadFiles cfg u"
  by (simp add: getUploadFiles_listing imagesOnly_def)

lemma imagesOnly_without: "imagesOnly cfg (without N u) = without N (imagesOnly cfg u)"
  by (auto simp: imagesOnly_def without_def conj_commute intro: filter_cong)

lemma fs_unlink_imagesOnly:
  assumes "isImageFile cfg n"
  shows "fs_unlink (imagesOnly cfg u) n = map_sum id (imagesOnly cfg) (fs_unlink u n)"
proof -
  have "n \<in> name ` set (entries (imagesOnly cfg u)) \<longleftrightarrow> n \<in> name ` set (entries u)"
    using assms by (auto simp: imagesOnly_def)
  moreover have "imagesOnly cfg (without {n} u) = without {n} (imagesOnly cfg u)"
    by (rule imagesOnly_without)
  ultimately show ?thesis
    by (simp add: fs_unlink_def) (simp add: imagesOnly_def without_def)
qed

lemma ageLoop_imagesOnly:
  "\<forall>f \<in> set fs. isImageFile cfg (name f) \<Longrightarrow>
   ageLoop cfg now fs (imagesOnly cfg u) d t = map_prod (imagesOnly cfg) id (ageLoop cfg now fs u d t)"
proof (induction fs arbitrary: u d t)
  case Nil
  then show ?case by simp
next
  case (Cons f fs)
  then have img: "isImageFile cfg (name f)" and rest: "\<forall>g \<in> set fs. isImageFile cfg (name g)"
    by simp_all
  show ?case
    using Cons.IH [OF rest] fs_unlink_imagesOnly [OF img, of u]
    by (cases "fs_unlink u (name f)") (simp_all add: ageTurn_def Let_def)
qed

lemma sizeLoop_imagesOnly:
  "\<forall>f \<in> set fs. isImageFile cfg (name f) \<Longrightarrow>
   sizeLoop cfg fs (imagesOnly cfg u) d t = map_prod (imagesOnly cfg) id (sizeLoop cfg fs u d t)"
proof (induction fs arbitrary: u d t)
  case Nil
  then show ?case by simp
next
  case (Cons f fs)
  then have img: "isImageFile cfg (name f)" and rest: "\<forall>g \<in> set fs. isImageFile cfg (name g)"
    by simp_all
  show ?case
    using Cons.IH [OF rest] fs_unlink_imagesOnly [OF img, of u]
    by (cases "fs_unlink u (name f)") (simp_all add: sizeTurn_def Let_def)
qed

lemma getUploadFiles_images: "\<forall>f \<in> set (getUploadFiles cfg u). isImageFile cfg (name f)"
  by (simp add: getUploadFiles_listing)

lemma cleanOldFiles_imagesOnly:
  "cleanOldFiles cfg now (imagesOnly cfg u) = map_prod (imagesOnly cfg) id (cleanOldFiles cfg now u)"
  by (simp add: cleanOldFiles_def getUploadFiles_imagesOnly ageLoop_imagesOnly getUploadFiles_images)

lemma cleanBySize_imagesOnly:
  "cleanBySize cfg (imagesOnly cfg u) = map_prod (imagesOnly cfg) id (cleanBySize cfg u)"
  by (simp add: cleanBySize_def getUploadFiles_imagesOnly sizeLoop_imagesOnly getUploadFiles_images Let_def)

lemma ageLoop_keeps:
  "g \<in> set (entries u) \<Longrightarrow> name g \<notin> name ` set fs \<Longrightarrow> g \<in> set (entries (fst (ageLoop cfg now fs u d t)))"
proof (induction fs arbitrary: u d t)
  case Nil
  then show ?case by simp
next
  case (Cons f fs)
  then show ?case
    by (auto simp: ageTurn_def Let_def fs_unlink_def split: if_splits)
qed

lemma sizeLoop_keeps:
  "g \<in> set (entries u) \<Longrightarrow> name g \<notin> name ` set fs \<Longrightarrow> g \<in> set (entries (fst (sizeLoop cfg fs u d t)))"
proof (induction fs arbitrary: u d t)
  case Nil
  then show ?case by simp
next
  case (Cons f fs)
  then show ?case
    by (auto simp: sizeTurn_def Let_def fs_unlink_def split: if_splits)
qed

lemma not_listed:
  "\<not> isImageFile cfg (name g) \<Longrightarrow> name g \<notin> name ` set (getUploadFiles cfg u)"
  using getUploadFiles_images [of cfg u] by (metis imageE)

text \<open>
  Claim C10. A file of the directory whose extension, in lower case, is not one of the
  supported extensions (\<^verbatim>\<open>.jpg\<close>, \<^verbatim>\<open>.jpeg\<close>, \<^verbatim>\<open>.png\<close> by default) is not listed, is still in
  the directory after the age pass and after the size pass, and does not count: both
  passes and the statistics query give the results they give on the directory without its
  other files.
\<close>

theorem retention_only_images:
  assumes "g \<in> set (entries u)"
    and "toLowerCase (extname (name g)) \<notin> set (supportedExtensions cfg)"
  shows "g \<notin> set (getUploadFiles cfg u)
       \<and> g \<in> set (entries (fst (cleanOldFiles cfg now u)))
       \<and> g \<in> set (entries (fst (cleanBySize cfg u)))
       \<and> snd (cleanOldFiles cfg now u) = snd (cleanOldFiles cfg now (imagesOnly cfg u))
       \<and> snd (cleanBySize cfg u) = snd (cleanBySize cfg (imagesOnly cfg u))
       \<and> getUploadStats cfg now u = getUploadStats cfg now (imagesOnly cfg u)"
proof -
  from assms(2) have ni: "\<not> isImageFile cfg (name g)"
    by (simp add: isImageFile_def)
  have "g \<notin> set (getUploadFiles cfg u)"
    using ni getUploadFiles_images by blast
  moreover have "g \<in> set (entries (fst (cleanOldFiles cfg now u)))"
    unfolding cleanOldFiles_def by (rule ageLoop_keeps [OF assms(1) not_listed [OF ni]])
  moreover have "g \<in> set (entries (fst (cleanBySize cfg u)))"
    unfolding cleanBySize_def Let_def
    using sizeLoop_keeps [OF assms(1), of "sort_key mtime (getUploadFiles cfg u)"] not_listed [OF ni, of u] assms(1)
    by simp
  moreover have "snd (cleanOldFiles cfg now u) = snd (cleanOldFiles cfg now (imagesOnly cfg u))"
    by (simp add: cleanOldFiles_imagesOnly)
  moreover have "snd (cleanBySize cfg u) = snd (cleanBySize cfg (imagesOnly cfg u))"
    by (simp add: cleanBySize_imagesOnly)
  moreover have "getUploadStats cfg now u = getUploadStats cfg now (imagesOnly cfg u)"
    by (simp add: getUploadStats_def getUploadFiles_imagesOnly)
  ultimately show ?thesis by blast
qed

text \<open>
  A print document and a photo named \<^verbatim>\<open>old.JPG\<close>, both older than a day: the photo is
  deleted by the age pass and is what the size pass and the statistics count; the
  document stays and counts nowhere.
\<close>

theorem retention_only_images_witness:
  "toLowerCase (extname ''print.pdf'') = ''.pdf''
   \<and> toLowerCase (extname ''old.JPG'') = ''.jpg''
   \<and> cleanOldFiles defaultConfig 86400010 pdfAndPhoto
       = (pdfAndPhoto\<lparr> entries := [\<lparr> name = ''print.pdf'', size_b = 209715200, mtime = 0 \<rparr>] \<rparr>,
          Inr \<lparr> deletedCount = 1, totalSize = 0 \<rparr>)
   \<and> cleanBySize defaultConfig pdfAndPhoto
       = (pdfAndPhoto, Inr \<lparr> deletedCount = 0, totalSize = 10 \<rparr>)
   \<and> getUploadStats defaultConfig 86400010 pdfAndPhoto
       = \<lparr> fileCount = 1, totalSize_s = 10, oldestFile = Some ''old.JPG'',
           oldestFileAge = Some ''24h 0m 0s'' \<rparr>
   \<and> \<lparr> name = ''print.pdf'', size_b = 209715200, mtime = 0 \<rparr>
       \<in> set (entries (fst (cleanOldFiles defaultConfig 86400010 pdfAndPhoto)))"
proof -
  let ?g = "\<lparr> name = ''print.pdf'', size_b = 209715200, mtime = 0 \<rparr>"
  have g: "?g \<in> set (entries pdfAndPhoto)"
    by (simp add: pdfAndPhoto_def)
  have ext: "toLowerCase (extname (name ?g)) \<notin> set (supportedExtensions defaultConfig)"
    by code_simp
  have e1: "toLowerCase (extname ''print.pdf'') = ''.pdf''"
    by code_simp
  have e2: "toLowerCase (extname ''old.JPG'') = ''.jpg''"
    by code_simp
  have a: "cleanOldFiles defaultConfig 86400010 pdfAndPhoto
       = (pdfAndPhoto\<lparr> entries := [?g] \<rparr>, Inr \<lparr> deletedCount = 1, totalSize = 0 \<rparr>)"
    by code_simp
  have s: "cleanBySize defaultConfig pdfAndPhoto
       = (pdfAndPhoto, Inr \<lparr> deletedCount = 0, totalSize = 10 \<rparr>)"
    by code_simp
  have q: "getUploadStats defaultConfig 86400010 pdfAndPhoto
       = \<lparr> fileCount = 1, totalSize_s = 10, oldestFile = Some ''old.JPG'',
           oldestFileAge = Some ''24h 0m 0s'' \<rparr>"
    by code_simp
  from retention_only_images [OF g ext, of 86400010]
  have "?g \<in> set (entries (fst (cleanOldFiles defaultConfig 86400010 pdfAndPhoto)))"
    by blast
  with e1 e2 a s q show ?thesis by blast
qed

subsection \<open>The passes of one run take turns\<close>

lemma firstRejection_unsettled [simp]:
  "firstRejection rej Listing = rej \<and> firstRejection rej (Statting listed) = rej
   \<and> firstRejection rej (Looping fs d t) = rej \<and> firstRejection rej (Returned r) = rej"
  by (cases rej) (simp_all add: firstRejection_def)

lemma settled_simps [simp]:
  "\<not> settled Listing \<and> \<not> settled (Statting listed) \<and> \<not> settled (Looping fs d t)
   \<and> settled (Returned r) \<and> settled (Thrown e)"
  by (simp add: settled_def)






























subsection \<open>Triggers and the passes under way\<close>

lemma executing_begin:
  "executing (beginFullCleanup sv) = executing sv @ [(AgePass, Listing), (SizePass, Listing)]"
  by (simp add: executing_def beginFullCleanup_def settled_def)

lemma executing_triggers:
  "\<forall>ev \<in> set evs. ev = TimerFires \<or> ev = CleanupRequested \<Longrightarrow>
   length (executing (fold (serverStep cfg now) evs sv)) = length (executing sv) + 2 * length evs"
proof (induction evs arbitrary: sv)
  case Nil
  then show ?case by simp
next
  case (Cons ev evs)
  then have "serverStep cfg now ev sv = beginFullCleanup sv"
    by (auto simp: serverStep_def)
  with Cons show ?case by (simp add: executing_begin)
qed

text \<open>
  Claim C9, as the code has it. There is no gate: a trigger, the timer's or a request's,
  starts the two passes of a new run at once and leaves the passes that are executing as
  they are; after any sequence of triggers all the passes they started are executing
  together, two for each trigger.
\<close>

theorem triggers_start_passes_at_once:
  "executing (serverStep cfg now TimerFires sv) = executing sv @ [(AgePass, Listing), (SizePass, Listing)]
   \<and> executing (serverStep cfg now CleanupRequested sv) = executing sv @ [(AgePass, Listing), (SizePass, Listing)]
   \<and> ((\<forall>ev \<in> set evs. ev = TimerFires \<or> ev = CleanupRequested) \<longrightarrow>
        length (executing (serverRun cfg now evs sv)) = length (executing sv) + 2 * length evs)"
  by (simp add: serverStep_def executing_begin serverRun_def executing_triggers)

text \<open>
  A cleanup is requested and, before it has made a turn, the timer fires: four passes are
  executing.
\<close>

theorem triggers_start_passes_at_once_witness:
  "executing (serverRun defaultConfig 86400001 [CleanupRequested, TimerFires]
                \<lparr> uploadsDir = oldAndNew, underWay = [] \<rparr>)
     = [(AgePass, Listing), (SizePass, Listing), (AgePass, Listing), (SizePass, Listing)]
   \<and> length (executing (serverRun defaultConfig 86400001 [CleanupRequested, TimerFires]
                          \<lparr> uploadsDir = oldAndNew, underWay = [] \<rparr>)) = 4"
proof -
  let ?sv = "\<lparr> uploadsDir = oldAndNew, underWay = [] \<rparr>"
  have e: "executing (serverRun defaultConfig 86400001 [CleanupRequested, TimerFires] ?sv)
     = [(AgePass, Listing), (SizePass, Listing), (AgePass, Listing), (SizePass, Listing)]"
    by code_simp
  have t: "\<forall>ev \<in> set [CleanupRequested, TimerFires]. ev = TimerFires \<or> ev = CleanupRequested"
    by simp
  have z: "length (executing ?sv) = 0"
    by code_simp
  from triggers_start_passes_at_once [of defaultConfig 86400001 ?sv "[CleanupRequested, TimerFires]"] t
  have "length (executing (serverRun defaultConfig 86400001 [CleanupRequested, TimerFires] ?sv))
      = length (executing ?sv) + 2 * length [CleanupRequested, TimerFires]"
    by blast
  with e z show ?thesis by simp
qed

text \<open>
  Claim C9 as stated fails: with a request and then the timer, four passes execute at the
  same time, and when the age passes of the two runs take turns (each reads the directory,
  gets its stats, deletes), both decide to delete the old photo; the second deletion fails
  because the file is gone.
\<close>

theorem mutual_exclusion_counterexample:
  "length (executing (serverRun defaultConfig 86400001 [CleanupRequested, TimerFires]
                        \<lparr> uploadsDir = oldAndNew, underWay = [] \<rparr>)) = 4
   \<and> underWay (serverRun defaultConfig 86400001
                 [CleanupRequested, TimerFires, Resumes 0, Resumes 2, Resumes 0, Resumes 2,
                  Resumes 0, Resumes 2]
                 \<lparr> uploadsDir = oldAndNew, underWay = [] \<rparr>)
     = [(AgePass, Looping [\<lparr> name = ''new.jpg'', size_b = 5242880, mtime = 86400000 \<rparr>] 1 0),
        (SizePass, Listing),
        (AgePass, Thrown ENOENT),
        (SizePass, Listing)]"
  by code_simp

section \<open>Properties of the compositing pipeline\<close>

subsection \<open>The placement lies inside the frame\<close>

lemma mark_bounds:
  assumes "\<forall>p \<in> set ps. fst p < W \<and> snd p < H"
    and "0 \<le> minX s \<and> 0 \<le> minY s
       \<and> (hasTransparentArea s \<longrightarrow> minX s \<le> maxX s \<and> minY s \<le> maxY s
              \<and> minX s < int W \<and> minY s < int H)"
  shows "0 \<le> minX (fold mark ps s) \<and> 0 \<le> minY (fold mark ps s)
       \<and> (hasTransparentArea (fold mark ps s) \<longrightarrow>
              minX (fold mark ps s) \<le> maxX (fold mark ps s)
            \<and> minY (fold mark ps s) \<le> maxY (fold mark ps s)
            \<and> minX (fold mark ps s) < int W \<and> minY (fold mark ps s) < int H)"
  using assms
proof (induction ps arbitrary: s)
  case Nil
  then show ?case by simp
next
  case (Cons p ps)
  have "0 \<le> minX (mark p s) \<and> 0 \<le> minY (mark p s)
       \<and> (hasTransparentArea (mark p s) \<longrightarrow> minX (mark p s) \<le> maxX (mark p s)
              \<and> minY (mark p s) \<le> maxY (mark p s)
              \<and> minX (mark p s) < int W \<and> minY (mark p s) < int H)"
    using Cons.prems by (auto simp: mark_def)
  with Cons.IH [of "mark p s"] Cons.prems(1) show ?case by simp
qed

lemma scanFrame_bounds:
  "0 \<le> minX (scanFrame f) \<and> 0 \<le> minY (scanFrame f)
   \<and> (hasTransparentArea (scanFrame f) \<longrightarrow>
          minX (scanFrame f) \<le> maxX (scanFrame f) \<and> minY (scanFrame f) \<le> maxY (scanFrame f)
        \<and> minX (scanFrame f) < int (width f) \<and> minY (scanFrame f) < int (height f))"
  unfolding scanFrame_mark
  by (rule mark_bounds) (auto simp: set_framePixels transparentSet_def scanInit_def)

lemma placement_inside_frame:
  "0 \<le> left_p (detectFramePlacement f) \<and> 0 \<le> top_p (detectFramePlacement f)
   \<and> left_p (detectFramePlacement f) + width_p (detectFramePlacement f) \<le> int (width f)
   \<and> top_p (detectFramePlacement f) + height_p (detectFramePlacement f) \<le> int (height f)"
  using scanFrame_bounds [of f] by (auto simp: detectFramePlacement_def Let_def)

lemma placement_positive:
  assumes "0 < width f" "0 < height f"
  shows "0 < width_p (detectFramePlacement f) \<and> 0 < height_p (detectFramePlacement f)"
  using scanFrame_bounds [of f] assms by (auto simp: detectFramePlacement_def Let_def)

subsection \<open>The composite\<close>

lemma coverFit_dims:
  "coverFit lib photo w h = Inr fitted \<Longrightarrow> int (pwidth fitted) = w \<and> int (pheight fitted) = h"
  by (auto simp: coverFit_def Let_def split: if_splits)

lemma coverFit_total:
  "0 < pwidth photo \<Longrightarrow> 0 < pheight photo \<Longrightarrow> 0 < w \<Longrightarrow> 0 < h
   \<Longrightarrow> \<exists>fitted. coverFit lib photo w h = Inr fitted"
  by (simp add: coverFit_def Let_def)

lemma applyFrame_result:
  "snd (applyFrame lib ip photo frame)
     = (case coverFit lib photo (width_p (detectFramePlacement frame))
               (height_p (detectFramePlacement frame)) of
          Inl e \<Rightarrow> Inl e
        | Inr fitted \<Rightarrow>
            Inr (composite (framePicture frame) (jpegEncode lib (defaultQuality ip) fitted)
                   (top_p (detectFramePlacement frame)) (left_p (detectFramePlacement frame))))"
  by (simp add: applyFrame_def Let_def split: sum.splits)

lemma composite_dims:
  "pwidth (composite base overlay t l) = pwidth base \<and> pheight (composite base overlay t l) = pheight base"
  by (simp add: composite_def)

lemma composite_pixel:
  "pixel (composite base overlay t l) x y
     = (if inRectangle \<lparr> top_p = t, left_p = l, width_p = int (pwidth overlay),
                         height_p = int (pheight overlay) \<rparr> x y
        then pixel overlay (nat (int x - l)) (nat (int y - t))
        else pixel base x y)"
  by (simp add: composite_def inRectangle_def)

lemma inRectangle_placement:
  "inRectangle \<lparr> top_p = top_p p, left_p = left_p p, width_p = width_p p, height_p = height_p p \<rparr> x y
     = inRectangle p x y"
  by (simp add: inRectangle_def)

text \<open>
  Claim C6. Whenever \<^verbatim>\<open>applyFrame\<close> produces a composite, the composite has the frame's
  dimensions, every frame pixel outside the placement rectangle is the frame's pixel, and
  inside the rectangle the pixel is that of the photo, fitted to exactly the rectangle's
  width and height and encoded, at offset \<open>(left, top)\<close>. The rectangle is the one the
  detector finds in the frame; it lies inside the frame. A composite is produced for every
  photo and frame that have no zero dimension. The same holds of the compositor for every
  rectangle and offset.
\<close>

theorem applyFrame_composite:
  "(0 < pwidth photo \<and> 0 < pheight photo \<and> 0 < width frame \<and> 0 < height frame \<longrightarrow>
      (\<exists>c. snd (applyFrame lib ip photo frame) = Inr c))
   \<and> (\<forall>c. snd (applyFrame lib ip photo frame) = Inr c \<longrightarrow>
          pwidth c = width frame \<and> pheight c = height frame
        \<and> (\<forall>x < width frame. \<forall>y < height frame.
              \<not> inRectangle (detectFramePlacement frame) x y \<longrightarrow> pixel c x y = pixelAt frame x y)
        \<and> (\<exists>fitted. coverFit lib photo (width_p (detectFramePlacement frame))
                        (height_p (detectFramePlacement frame)) = Inr fitted
              \<and> int (pwidth fitted) = width_p (detectFramePlacement frame)
              \<and> int (pheight fitted) = height_p (detectFramePlacement frame)
              \<and> (\<forall>x y. inRectangle (detectFramePlacement frame) x y \<longrightarrow>
                    pixel c x y = pixel (jpegEncode lib (defaultQuality ip) fitted)
                                    (nat (int x - left_p (detectFramePlacement frame)))
                                    (nat (int y - top_p (detectFramePlacement frame))))))
   \<and> 0 \<le> left_p (detectFramePlacement frame) \<and> 0 \<le> top_p (detectFramePlacement frame)
   \<and> left_p (detectFramePlacement frame) + width_p (detectFramePlacement frame) \<le> int (width frame)
   \<and> top_p (detectFramePlacement frame) + height_p (detectFramePlacement frame) \<le> int (height frame)
   \<and> (\<forall>fitted. coverFit lib photo w h = Inr fitted \<longrightarrow>
          pwidth (composite (framePicture frame) (jpegEncode lib q fitted) t l) = width frame
        \<and> pheight (composite (framePicture frame) (jpegEncode lib q fitted) t l) = height frame
        \<and> (\<forall>x y. \<not> inRectangle \<lparr> top_p = t, left_p = l, width_p = w, height_p = h \<rparr> x y \<longrightarrow>
              pixel (composite (framePicture frame) (jpegEncode lib q fitted) t l) x y
                = pixelAt frame x y))"
proof -
  let ?P = "detectFramePlacement frame"
  have produced: "\<exists>c. snd (applyFrame lib ip photo frame) = Inr c"
    if "0 < pwidth photo \<and> 0 < pheight photo \<and> 0 < width frame \<and> 0 < height frame"
  proof -
    from that placement_positive [of frame] have "0 < width_p ?P" "0 < height_p ?P" by simp_all
    with that coverFit_total [of photo "width_p ?P" "height_p ?P" lib]
    obtain fitted where "coverFit lib photo (width_p ?P) (height_p ?P) = Inr fitted" by blast
    then show ?thesis by (simp add: applyFrame_result)
  qed
  have composed: "pwidth c = width frame \<and> pheight c = height frame
        \<and> (\<forall>x < width frame. \<forall>y < height frame.
              \<not> inRectangle ?P x y \<longrightarrow> pixel c x y = pixelAt frame x y)
        \<and> (\<exists>fitted. coverFit lib photo (width_p ?P) (height_p ?P) = Inr fitted
              \<and> int (pwidth fitted) = width_p ?P \<and> int (pheight fitted) = height_p ?P
              \<and> (\<forall>x y. inRectangle ?P x y \<longrightarrow>
                    pixel c x y = pixel (jpegEncode lib (defaultQuality ip) fitted)
                                    (nat (int x - left_p ?P)) (nat (int y - top_p ?P))))"
    if c: "snd (applyFrame lib ip photo frame) = Inr c" for c
  proof -
    from c obtain fitted where fit: "coverFit lib photo (width_p ?P) (height_p ?P) = Inr fitted"
      and cc: "c = composite (framePicture frame) (jpegEncode lib (defaultQuality ip) fitted)
                     (top_p ?P) (left_p ?P)"
      by (auto simp: applyFrame_result split: sum.splits)
    from coverFit_dims [OF fit]
    have dims: "int (pwidth fitted) = width_p ?P" "int (pheight fitted) = height_p ?P" by simp_all
    have px: "pixel c x y = (if inRectangle ?P x y
                 then pixel (jpegEncode lib (defaultQuality ip) fitted)
                        (nat (int x - left_p ?P)) (nat (int y - top_p ?P))
                 else pixelAt frame x y)" for x y
      unfolding cc composite_pixel
      by (simp add: jpegEncode_def dims inRectangle_placement framePicture_def)
    have "pwidth c = width frame \<and> pheight c = height frame"
      by (simp add: cc composite_dims framePicture_def)
    with fit dims px show ?thesis by simp
  qed
  have general: "pwidth (composite (framePicture frame) (jpegEncode lib q fitted) t l) = width frame
        \<and> pheight (composite (framePicture frame) (jpegEncode lib q fitted) t l) = height frame
        \<and> (\<forall>x y. \<not> inRectangle \<lparr> top_p = t, left_p = l, width_p = w, height_p = h \<rparr> x y \<longrightarrow>
              pixel (composite (framePicture frame) (jpegEncode lib q fitted) t l) x y
                = pixelAt frame x y)"
    if fit: "coverFit lib photo w h = Inr fitted" for fitted
    using coverFit_dims [OF fit]
    by (simp add: composite_dims composite_pixel jpegEncode_def framePicture_def)
  from produced composed general placement_inside_frame [of frame] show ?thesis
    by blast
qed

text \<open>
  The photo of 4 by 2 pixels in the frame of 20 by 2 pixels whose last two columns are
  transparent: the composite is 20 by 2, the pixels \<open>(0, 0)\<close> and \<open>(17, 1)\<close> are the frame's
  white ones, and the pixels \<open>(18, 0)\<close> and \<open>(19, 1)\<close> are the pixels \<open>(1, 0)\<close> and \<open>(2, 1)\<close> of
  the photo, the middle of it, as encoded.
\<close>

theorem applyFrame_composite_witness:
  "map_sum id (\<lambda>c. (pwidth c, pheight c, pixel c 0 0, pixel c 17 1, pixel c 18 0, pixel c 19 1))
     (snd (applyFrame nearestSharp \<lparr> defaultQuality = 95 \<rparr> smallPhoto (cutoutFrame 20 2 18 0 2 2)))
   = Inr (20, 2, [255, 255, 255, 255], [255, 255, 255, 255], [10, 0, 6], [20, 10, 6])"
proof -
  let ?F = "cutoutFrame 20 2 18 0 2 2"
  let ?ip = "\<lparr> defaultQuality = 95 \<rparr>"
  let ?fit = "\<lparr> pwidth = 2, pheight = 2,
               pixel = (\<lambda>x y. kernel nearestSharp smallPhoto 4 2 (x + 1) (y + 0)) \<rparr>"
  note C6 = applyFrame_composite [of smallPhoto ?F nearestSharp ?ip 2 2 95 0 18]
  have pos: "0 < pwidth smallPhoto \<and> 0 < pheight smallPhoto \<and> 0 < width ?F \<and> 0 < height ?F"
    by (simp add: smallPhoto_def cutout_width cutout_height)
  with C6 obtain c where c: "snd (applyFrame nearestSharp ?ip smallPhoto ?F) = Inr c"
    by blast
  have fit: "coverFit nearestSharp smallPhoto 2 2 = Inr ?fit"
    by (simp add: coverFit_def smallPhoto_def Let_def)
  have out: "\<not> inRectangle (detectFramePlacement ?F) 0 0" "\<not> inRectangle (detectFramePlacement ?F) 17 1"
    and ins: "inRectangle (detectFramePlacement ?F) 18 0" "inRectangle (detectFramePlacement ?F) 19 1"
    by (simp_all add: placement_near_edge inRectangle_def)
  from C6 c have dims: "pwidth c = width ?F" "pheight c = height ?F"
    and outside: "\<forall>x < width ?F. \<forall>y < height ?F.
                    \<not> inRectangle (detectFramePlacement ?F) x y \<longrightarrow> pixel c x y = pixelAt ?F x y"
    and inside: "\<exists>fitted. coverFit nearestSharp smallPhoto (width_p (detectFramePlacement ?F))
                              (height_p (detectFramePlacement ?F)) = Inr fitted
              \<and> (\<forall>x y. inRectangle (detectFramePlacement ?F) x y \<longrightarrow>
                    pixel c x y = pixel (jpegEncode nearestSharp (defaultQuality ?ip) fitted)
                                    (nat (int x - left_p (detectFramePlacement ?F)))
                                    (nat (int y - top_p (detectFramePlacement ?F))))"
    by blast+
  from outside out have o: "pixel c 0 0 = pixelAt ?F 0 0" "pixel c 17 1 = pixelAt ?F 17 1"
    by (simp_all add: cutout_width cutout_height)
  from inside ins have i: "pixel c 18 0 = pixel (jpegEncode nearestSharp 95 ?fit) 0 0"
    "pixel c 19 1 = pixel (jpegEncode nearestSharp 95 ?fit) 1 1"
    by (auto simp: placement_near_edge fit)
  have f: "pixelAt ?F 0 0 = [255, 255, 255, 255]" "pixelAt ?F 17 1 = [255, 255, 255, 255]"
    by code_simp+
  have e: "pixel (jpegEncode nearestSharp 95 ?fit) 0 0 = [10, 0, 6]"
    "pixel (jpegEncode nearestSharp 95 ?fit) 1 1 = [20, 10, 6]"
    by (simp_all add: jpegEncode_def nearestSharp_def smallPhoto_def)
  show ?thesis
    unfolding c map_sum.simps dims o i f e cutout_width cutout_height by (rule refl)
qed

subsection \<open>The lossy encodes of a request\<close>

lemma validate_quality:
  "validate cfg = Inr ok \<Longrightarrow> 1 \<le> imageQuality cfg \<and> imageQuality cfg \<le> 100"
  by (auto simp: validate_def Let_def split: if_splits)

lemma initialize_quality:
  assumes "initialize cfg = Inr ip"
  shows "defaultQuality ip = imageQuality cfg \<and> 1 \<le> imageQuality cfg \<and> imageQuality cfg \<le> 100"
proof -
  from assms obtain ok where "validate cfg = Inr ok" and "ip = newImageProcessor cfg"
    by (auto simp: initialize_def validateConfiguration_def split: sum.splits)
  with validate_quality [of cfg ok] show ?thesis by (simp add: newImageProcessor_def)
qed

lemma applyFrame_ops:
  "snd (applyFrame lib ip photo frame) = Inr c \<Longrightarrow>
   fst (applyFrame lib ip photo frame)
     = [Open, Metadata, Open, Metadata, Raw, ToBuffer,
        Resize (width_p (detectFramePlacement frame)) (height_p (detectFramePlacement frame)),
        Jpeg (defaultQuality ip), ToBuffer, Open, Png, ToBuffer,
        Open, Composite (top_p (detectFramePlacement frame)) (left_p (detectFramePlacement frame))]"
  by (auto simp: applyFrame_def detectFramePlacementOps_def Let_def split: sum.splits)

lemma processPrintRequest_ops:
  assumes "processPrintRequest lib ip frames photo frameId = (ops, Inr saved)"
  shows "\<exists>fid frame. frameId = Some fid \<and> frames fid = Some frame
       \<and> ops = [Open, Metadata, Open, Metadata, Open, Metadata, Raw, ToBuffer,
                Resize (width_p (detectFramePlacement frame)) (height_p (detectFramePlacement frame)),
                Jpeg (defaultQuality ip), ToBuffer, Open, Png, ToBuffer,
                Open, Composite (top_p (detectFramePlacement frame)) (left_p (detectFramePlacement frame)),
                Jpeg (defaultQuality ip), ToFile]"
proof -
  from assms obtain ops1 processed where p: "processImage lib ip frames photo frameId = (ops1, Inr processed)"
    and o: "ops = ops1 @ [Jpeg (defaultQuality ip), ToFile]"
    by (auto simp: processPrintRequest_def saveImage_def Let_def split: prod.splits sum.splits)
  from p obtain fid frame where f: "frameId = Some fid" "frames fid = Some frame"
    and a: "applyFrame lib ip photo frame = (drop 2 ops1, Inr processed)" and m: "take 2 ops1 = [Open, Metadata]"
    by (auto simp: processImage_def Let_def split: option.splits if_splits prod.splits)
  from a applyFrame_ops [of lib ip photo frame processed]
  have "drop 2 ops1 = [Open, Metadata, Open, Metadata, Raw, ToBuffer,
        Resize (width_p (detectFramePlacement frame)) (height_p (detectFramePlacement frame)),
        Jpeg (defaultQuality ip), ToBuffer, Open, Png, ToBuffer,
        Open, Composite (top_p (detectFramePlacement frame)) (left_p (detectFramePlacement frame))]"
    by simp
  with m append_take_drop_id [of 2 ops1]
  have "ops1 = [Open, Metadata] @ [Open, Metadata, Open, Metadata, Raw, ToBuffer,
        Resize (width_p (detectFramePlacement frame)) (height_p (detectFramePlacement frame)),
        Jpeg (defaultQuality ip), ToBuffer, Open, Png, ToBuffer,
        Open, Composite (top_p (detectFramePlacement frame)) (left_p (detectFramePlacement frame))]"
    by metis
  with o f show ?thesis by simp
qed

text \<open>
  Claim C7, as the code has it. A compositing request that a running server processes
  encodes lossily twice, each time as JPEG with an explicit quality, the configured one,
  which is between 1 and 100: the resized photo inside \<^verbatim>\<open>applyFrame\<close>, an intermediate step
  before the photo is composited into the frame, and the output in \<^verbatim>\<open>saveImage\<close>. The
  other steps (opening and reading the photo and the frame, resizing, the PNG encoding of
  the frame, compositing) encode nothing lossily.
\<close>

theorem lossy_encodes_of_a_request:
  assumes "initialize cfg = Inr ip"
    and "processPrintRequest lib ip frames photo frameId = (ops, Inr saved)"
  shows "filter lossyEncode ops = [Jpeg (imageQuality cfg), Jpeg (imageQuality cfg)]
       \<and> 1 \<le> imageQuality cfg \<and> imageQuality cfg \<le> 100
       \<and> (\<exists>fid frame. frameId = Some fid \<and> frames fid = Some frame
            \<and> ops = [Open, Metadata, Open, Metadata, Open, Metadata, Raw, ToBuffer,
                     Resize (width_p (detectFramePlacement frame)) (height_p (detectFramePlacement frame)),
                     Jpeg (imageQuality cfg), ToBuffer, Open, Png, ToBuffer,
                     Open, Composite (top_p (detectFramePlacement frame)) (left_p (detectFramePlacement frame)),
                     Jpeg (imageQuality cfg), ToFile])"
proof -
  from initialize_quality [OF assms(1)]
  have q: "defaultQuality ip = imageQuality cfg" and r: "1 \<le> imageQuality cfg" "imageQuality cfg \<le> 100"
    by simp_all
  from processPrintRequest_ops [OF assms(2)] obtain fid frame
    where f: "frameId = Some fid" "frames fid = Some frame"
      and o: "ops = [Open, Metadata, Open, Metadata, Open, Metadata, Raw, ToBuffer,
                Resize (width_p (detectFramePlacement frame)) (height_p (detectFramePlacement frame)),
                Jpeg (imageQuality cfg), ToBuffer, Open, Png, ToBuffer,
                Open, Composite (top_p (detectFramePlacement frame)) (left_p (detectFramePlacement frame)),
                Jpeg (imageQuality cfg), ToFile]"
    unfolding q by blast
  have "filter lossyEncode ops = [Jpeg (imageQuality cfg), Jpeg (imageQuality cfg)]"
    unfolding o by (simp add: lossyEncode_def)
  with r f o show ?thesis by blast
qed

text \<open>
  The server started with no variable set has the quality 95; the request for the frame of
  20 by 2 pixels whose last two columns are transparent.
\<close>

theorem lossy_encodes_of_a_request_witness:
  "initialize (loadConfiguration noEnvironment) = Inr \<lparr> defaultQuality = 95 \<rparr>
   \<and> fst (processPrintRequest nearestSharp \<lparr> defaultQuality = 95 \<rparr>
            [''edge'' \<mapsto> cutoutFrame 20 2 18 0 2 2] smallPhoto (Some ''edge''))
       = [Open, Metadata, Open, Metadata, Open, Metadata, Raw, ToBuffer, Resize 2 2, Jpeg 95, ToBuffer,
          Open, Png, ToBuffer, Open, Composite 0 18, Jpeg 95, ToFile]
   \<and> filter lossyEncode
         (fst (processPrintRequest nearestSharp \<lparr> defaultQuality = 95 \<rparr>
                 [''edge'' \<mapsto> cutoutFrame 20 2 18 0 2 2] smallPhoto (Some ''edge'')))
       = [Jpeg 95, Jpeg 95]
   \<and> imageQuality (loadConfiguration noEnvironment) = 95"
proof -
  let ?cfg = "loadConfiguration noEnvironment"
  let ?ip = "\<lparr> defaultQuality = 95 \<rparr>"
  let ?run = "processPrintRequest nearestSharp ?ip [''edge'' \<mapsto> cutoutFrame 20 2 18 0 2 2]
                smallPhoto (Some ''edge'')"
  let ?ops = "[Open, Metadata, Open, Metadata, Open, Metadata, Raw, ToBuffer, Resize 2 2, Jpeg 95, ToBuffer,
               Open, Png, ToBuffer, Open, Composite 0 18, Jpeg 95, ToFile]"
  have i: "initialize ?cfg = Inr ?ip"
    by (simp add: initialize_def validateConfiguration_def validate_def loadConfiguration_def
          noEnvironment_def parseIntOr_def newImageProcessor_def)
  have k: "imageQuality ?cfg = 95"
    by (simp add: loadConfiguration_def noEnvironment_def parseIntOr_def)
  have "\<exists>saved. ?run = (?ops, Inr saved)"
    by (simp add: processPrintRequest_def processImage_def applyFrame_def saveImage_def
          detectFramePlacementOps_def coverFit_def smallPhoto_def placement_near_edge Let_def)
  then obtain saved where v: "?run = (?ops, Inr saved)" ..
  from lossy_encodes_of_a_request [OF i v]
  have "filter lossyEncode ?ops = [Jpeg (imageQuality ?cfg), Jpeg (imageQuality ?cfg)]" by blast
  with i k v show ?thesis by simp
qed

text \<open>
  Claim C7 as stated fails on that request: it encodes lossily twice, and the first lossy
  encode is an intermediate step, before the photo is composited into the frame.
\<close>

theorem lossy_encode_once_counterexample:
  "fst (processPrintRequest nearestSharp \<lparr> defaultQuality = 95 \<rparr>
          [''edge'' \<mapsto> cutoutFrame 20 2 18 0 2 2] smallPhoto (Some ''edge''))
     = [Open, Metadata, Open, Metadata, Open, Metadata, Raw, ToBuffer, Resize 2 2, Jpeg 95, ToBuffer,
        Open, Png, ToBuffer, Open, Composite 0 18, Jpeg 95, ToFile]
   \<and> length (filter lossyEncode
               [Open, Metadata, Open, Metadata, Open, Metadata, Raw, ToBuffer, Resize 2 2, Jpeg 95,
                ToBuffer, Open, Png, ToBuffer, Open, Composite 0 18, Jpeg 95, ToFile]) = 2
   \<and> map_sum id pwidth
        (snd (processPrintRequest nearestSharp \<lparr> defaultQuality = 95 \<rparr>
                [''edge'' \<mapsto> cutoutFrame 20 2 18 0 2 2] smallPhoto (Some ''edge''))) = Inr 20"
  by (simp add: processPrintRequest_def processImage_def applyFrame_def saveImage_def
        detectFramePlacementOps_def coverFit_def smallPhoto_def placement_near_edge Let_def
        lossyEncode_def jpegEncode_def composite_def framePicture_def cutout_width)

end
